(* ===== verification/Prelude.thy ===== *)
theory Prelude
  imports Main "HOL-Library.Word" "HOL-Library.Char_ord" "HOL-Library.List_Lexorder"
begin

text \<open>
  Shared vocabulary of the development.

  \<^item> A C function that may end the process (by \<open>exit\<close>, by \<open>abort\<close>, or by undefined
    behaviour that the model makes visible) is a \<open>prog\<close>: a function from a state to a
    result and a state. The result is \<open>Inl h\<close> when the process has ended with \<open>h\<close> and
    \<open>Inr v\<close> when the function returns \<open>v\<close>. The state is returned in both cases, since
    output issued before the end stays visible.
  \<^item> \<open>seqp\<close> is the statement list of a C block, \<open>whenp\<close> an \<open>if\<close> without \<open>else\<close>.
  \<^item> \<open>prog_simps\<close> collects the equations that execute such programs.
\<close>

section \<open>Ways a process can end\<close>

text \<open>
  \<open>Fault\<close> stands for undefined behaviour of C: the model stops there, and a theorem that
  a run is not a fault is a memory-safety theorem.
\<close>

datatype fault =
    Buffer_overflow  \<comment> \<open>a store behind the end of an array\<close>
  | Null_stream      \<comment> \<open>a stdio call on a null \<open>FILE *\<close>\<close>
  | Null_deref       \<comment> \<open>a read through a null pointer\<close>
  | Uninit_read      \<comment> \<open>a read of a variable never stored to\<close>

datatype halt =
    Exit int
  | Abort
  | Fault fault

section \<open>Programs\<close>

named_theorems init_states \<open>the states at the start of the process\<close>
named_theorems prog_simps

type_synonym ('s, 'a) prog = "'s \<Rightarrow> (halt + 'a) \<times> 's"

definition ret :: "'a \<Rightarrow> ('s, 'a) prog" where
  "ret a s = (Inr a, s)"

definition die :: "halt \<Rightarrow> ('s, 'a) prog" where
  "die h s = (Inl h, s)"

definition upd :: "('s \<Rightarrow> 's) \<Rightarrow> ('s, unit) prog" where
  "upd f s = (Inr (), f s)"

definition bindp :: "('s, 'a) prog \<Rightarrow> ('a \<Rightarrow> ('s, 'b) prog) \<Rightarrow> ('s, 'b) prog" where
  "bindp m k s =
     (case m s of (r, s') \<Rightarrow> (case r of Inl h \<Rightarrow> (Inl h, s') | Inr a \<Rightarrow> k a s'))"

definition withs :: "('s \<Rightarrow> ('s, 'a) prog) \<Rightarrow> ('s, 'a) prog" where
  "withs f s = f s s"

definition whenp :: "bool \<Rightarrow> ('s, unit) prog \<Rightarrow> ('s, unit) prog" where
  "whenp b m = (if b then m else ret ())"

definition lift_res :: "halt + 'a \<Rightarrow> ('s, 'a) prog" where
  "lift_res r s = (r, s)"

primrec seqp :: "('s, unit) prog list \<Rightarrow> ('s, unit) prog" where
  "seqp [] = ret ()"
| "seqp (m # ms) = bindp m (\<lambda>_. seqp ms)"

lemma ret_run [prog_simps]: "ret a s = (Inr a, s)"
  by (simp add: ret_def)

lemma die_run [prog_simps]: "die h s = (Inl h, s)"
  by (simp add: die_def)

lemma upd_run [prog_simps]: "upd f s = (Inr (), f s)"
  by (simp add: upd_def)

lemma withs_run [prog_simps]: "withs f s = f s s"
  by (simp add: withs_def)

lemma lift_res_run [prog_simps]: "lift_res r s = (r, s)"
  by (simp add: lift_res_def)

lemma whenp_run [prog_simps]: "whenp b m s = (if b then m s else (Inr (), s))"
  by (simp add: whenp_def ret_def)

lemma bindp_run [prog_simps]:
  "bindp m k s =
     (case m s of (r, s') \<Rightarrow> (case r of Inl h \<Rightarrow> (Inl h, s') | Inr a \<Rightarrow> k a s'))"
  by (simp add: bindp_def)

lemma bindp_Inr: "m s = (Inr a, s') \<Longrightarrow> bindp m k s = k a s'"
  by (simp add: bindp_def)

lemma bindp_Inl: "m s = (Inl h, s') \<Longrightarrow> bindp m k s = (Inl h, s')"
  by (simp add: bindp_def)

lemma bindp_assoc: "bindp (bindp m k) l = bindp m (\<lambda>a. bindp (k a) l)"
  by (rule ext) (simp add: bindp_def split: prod.splits sum.splits)

lemma bindp_upd [simp]: "bindp (upd f) k s = k () (f s)"
  by (simp add: bindp_def upd_def)

lemma bindp_ret [simp]: "bindp (ret a) k = k a"
  by (rule ext) (simp add: bindp_def ret_def)

lemma seqp_append: "seqp (ms @ ns) = bindp (seqp ms) (\<lambda>_. seqp ns)"
  by (induction ms) (simp_all add: bindp_assoc)

section \<open>Bytes and C integers\<close>

type_synonym u64 = "64 word"

text \<open>A \<open>char\<close> of the x86 ABI is signed: this is the \<open>int\<close> it is promoted to.\<close>

definition schar :: "char \<Rightarrow> int" where
  "schar c = (let n = (of_char c :: nat) in if n < 128 then int n else int n - 256)"

text \<open>Conversion of an \<open>int\<close> to \<open>unsigned int\<close>, as \<open>%x\<close> and \<open>%u\<close> read it.\<close>

definition to_unsigned :: "int \<Rightarrow> nat" where
  "to_unsigned i = unat (word_of_int i :: 32 word)"

text \<open>Conversion of a 64-bit register to \<open>int\<close>.\<close>

definition to_int :: "u64 \<Rightarrow> int" where
  "to_int w = sint (ucast w :: 32 word)"

text \<open>Conversion of a \<open>size_t\<close> to \<open>ssize_t\<close>.\<close>

definition to_ssize :: "u64 \<Rightarrow> int" where
  "to_ssize w = sint w"

text \<open>The C locale's \<open>isprint\<close>; the program never calls \<open>setlocale\<close>.\<close>

definition isprint :: "int \<Rightarrow> bool" where
  "isprint c \<longleftrightarrow> 32 \<le> c \<and> c \<le> 126"

lemma char_nat_cases: obtains n :: nat where "n < 256" and "c = char_of n"
  by (metis char_of_char nat_of_char_less_256)

lemma schar_char_of: "n < 256 \<Longrightarrow> schar (char_of n) = (if n < 128 then int n else int n - 256)"
  by (simp add: schar_def Let_def)

lemma schar_range: "-128 \<le> schar c \<and> schar c \<le> 127"
  by (rule char_nat_cases [of c]) (simp add: schar_char_of)

lemma char_of_int_nat: "char_of (int n) = char_of n"
  by (simp add: char_of_def bit_of_nat_iff_bit)

lemma schar_print: "isprint (schar c) \<Longrightarrow> char_of (schar c) = c"
  by (rule char_nat_cases [of c]) (auto simp: schar_char_of isprint_def char_of_int_nat split: if_splits)

lemma schar_nonneg: "(of_char c :: nat) < 128 \<longleftrightarrow> 0 \<le> schar c"
  by (rule char_nat_cases [of c]) (simp add: schar_char_of)

text \<open>A buffer cut at any place: the two pieces, each split where the old contents end.\<close>

lemma cut_pieces:
  "take n xs @ take (n - length xs) ys @ drop n xs @ drop (n - length xs) ys = xs @ ys"
  using append_take_drop_id [of n "xs @ ys"] by simp

end
