(* ===== verification/Stdio.thy ===== *)
theory Stdio
  imports Prelude
begin

text \<open>
  The part of the C library's stdio and of \<open>write(2)\<close> that the program uses.

  A \<open>FILE\<close> has a buffer of bytes accepted and not yet passed to the kernel. After each
  output call the library may pass on any prefix of the buffer: how much is the field
  \<open>drain\<close> (all of it for an unbuffered stream, nothing until the buffer is full for a
  fully buffered one, up to the last newline for a line-buffered one). Nothing below
  assumes more of it. The log \<open>written\<close> is the sequence of \<open>write(2)\<close> requests the process
  has made, by stdio or directly; it shows the order in which the bytes leave the process,
  which is what the program is about. The results of these requests are ignored by the
  program and are not modelled.
\<close>

section \<open>Streams\<close>

text \<open>
  The streams of the process. Descriptor 1 is the one under \<open>Stdout\<close>, descriptor 2 the one
  under \<open>Stderr\<close>; \<open>Opened name\<close> is a stream made by \<open>fopen(name, "w")\<close>.
\<close>

datatype stream = Stdout | Stderr | Opened string

text \<open>
  Streams are ordered as the C library keeps them: the standard streams first, then the
  opened ones. \<open>exit\<close> visits them from the last to the first.
\<close>

fun stream_rank :: "stream \<Rightarrow> nat" where
  "stream_rank Stdout = 0"
| "stream_rank Stderr = 1"
| "stream_rank (Opened _) = 2"

fun stream_path :: "stream \<Rightarrow> string" where
  "stream_path (Opened p) = p"
| "stream_path _ = []"

instantiation stream :: linorder
begin

definition less_eq_stream :: "stream \<Rightarrow> stream \<Rightarrow> bool" where
  "less_eq_stream a b \<longleftrightarrow>
     stream_rank a < stream_rank b \<or>
     (stream_rank a = stream_rank b \<and> stream_path a \<le> stream_path b)"

definition less_stream :: "stream \<Rightarrow> stream \<Rightarrow> bool" where
  "less_stream a b \<longleftrightarrow> a \<le> b \<and> \<not> b \<le> (a :: stream)"

instance
proof
  fix a b c :: stream
  show "(a < b) = (a \<le> b \<and> \<not> b \<le> a)" by (rule less_stream_def)
  show "a \<le> a" by (simp add: less_eq_stream_def)
  show "a \<le> b \<Longrightarrow> b \<le> c \<Longrightarrow> a \<le> c" by (auto simp: less_eq_stream_def)
  show "a \<le> b \<Longrightarrow> b \<le> a \<Longrightarrow> a = b"
    by (cases a; cases b) (auto simp: less_eq_stream_def)
  show "a \<le> b \<or> b \<le> a" by (auto simp: less_eq_stream_def)
qed

end

record io =
  drain :: "stream \<Rightarrow> string \<Rightarrow> nat"
  pending :: "stream \<Rightarrow> string"
  opened :: "stream list"
  written :: "(stream \<times> string) list"

text \<open>
  The usual policy where stdout is not a terminal: stderr is unbuffered, and of any other
  stream the whole blocks of 4096 bytes are passed on. It serves the concrete examples; the
  properties of the program hold for every policy, unless they say what they need of it.
\<close>

definition usual_drain :: "stream \<Rightarrow> string \<Rightarrow> nat" where
  "usual_drain st b = (if st = Stderr then length b else length b div 4096 * 4096)"

text \<open>The state at the start of a process.\<close>

definition init_io :: io where
  "init_io = \<lparr>drain = usual_drain, pending = (\<lambda>_. []), opened = [], written = []\<rparr>"

declare init_io_def [init_states] io.defs [init_states]

section \<open>Operations\<close>

text \<open>\<open>write(fd, d, strlen d)\<close>, on the descriptor under the stream.\<close>

definition sys_write :: "stream \<Rightarrow> string \<Rightarrow> 'a io_scheme \<Rightarrow> 'a io_scheme" where
  "sys_write st d s = s\<lparr>written := written s @ [(st, d)]\<rparr>"

definition fflush :: "stream \<Rightarrow> 'a io_scheme \<Rightarrow> 'a io_scheme" where
  "fflush st s =
     (if pending s st = [] then s
      else sys_write st (pending s st) (s\<lparr>pending := (pending s)(st := [])\<rparr>))"

text \<open>Any output call: \<open>fputs\<close>, \<open>fputc\<close>, \<open>fwrite\<close>, and \<open>fprintf\<close> of the formatted text.\<close>

definition fput :: "stream \<Rightarrow> string \<Rightarrow> 'a io_scheme \<Rightarrow> 'a io_scheme" where
  "fput st d s =
     (let b = pending s st @ d; n = min (drain s st b) (length b) in
      if n = 0 then s\<lparr>pending := (pending s)(st := b)\<rparr>
      else sys_write st (take n b) (s\<lparr>pending := (pending s)(st := drop n b)\<rparr>))"

text \<open>\<open>fwrite(d, n, 1, f)\<close>: for \<open>n = 0\<close> the stream is left as it is.\<close>

definition fwrite :: "stream \<Rightarrow> string \<Rightarrow> 'a io_scheme \<Rightarrow> 'a io_scheme" where
  "fwrite st d s = (if d = [] then s else fput st d s)"

text \<open>The same through a \<open>FILE *\<close>, which may be null.\<close>

definition fputs :: "string \<Rightarrow> stream option \<Rightarrow> ('a io_scheme, unit) prog" where
  "fputs d f = (case f of None \<Rightarrow> die (Fault Null_stream) | Some st \<Rightarrow> upd (fput st d))"

definition fopen_w :: "string \<Rightarrow> 'a io_scheme \<Rightarrow> 'a io_scheme" where
  "fopen_w p s = s\<lparr>opened := Opened p # opened s, pending := (pending s)(Opened p := [])\<rparr>"

text \<open>\<open>exit\<close> flushes every open stream; \<open>abort\<close> (\<open>die Abort\<close>) flushes none.\<close>

definition flush_all :: "'a io_scheme \<Rightarrow> 'a io_scheme" where
  "flush_all s = fold fflush (rev (sort (Stdout # Stderr # opened s))) s"

definition exitp :: "int \<Rightarrow> ('a io_scheme, 'b) prog" where
  "exitp c s = (Inl (Exit c), flush_all s)"

section \<open>What has been output\<close>

text \<open>
  \<open>content st\<close> is what has left the process through \<open>st\<close>; \<open>flow st\<close> adds what is still in
  its buffer. \<open>tty\<close> is what a terminal shows that is both descriptor 1 and descriptor 2.
\<close>

definition content :: "stream \<Rightarrow> 'a io_scheme \<Rightarrow> string" where
  "content st s = concat (map snd (filter (\<lambda>e. fst e = st) (written s)))"

definition flow :: "stream \<Rightarrow> 'a io_scheme \<Rightarrow> string" where
  "flow st s = content st s @ pending s st"

definition tty :: "'a io_scheme \<Rightarrow> string" where
  "tty s = concat (map snd (filter (\<lambda>e. fst e = Stdout \<or> fst e = Stderr) (written s)))"

definition tty_flow :: "'a io_scheme \<Rightarrow> string" where
  "tty_flow s = tty s @ pending s Stdout @ pending s Stderr"

text \<open>Nothing waits in the buffer of \<open>stderr\<close> (the C standard has it unbuffered).\<close>

definition quiet :: "'a io_scheme \<Rightarrow> bool" where
  "quiet s \<longleftrightarrow> pending s Stderr = []"

text \<open>
  A policy with a buffer of \<open>k\<close> bytes for a stream passes nothing on before it holds more.
  From \<open>s\<close> to \<open>t\<close> a stream is held back if nothing has left it, supposing that its buffer has
  room for all it was given.
\<close>

definition buffers :: "(stream \<Rightarrow> string \<Rightarrow> nat) \<Rightarrow> stream \<Rightarrow> nat \<Rightarrow> bool" where
  "buffers dr st k \<longleftrightarrow> (\<forall>b. length b \<le> k \<longrightarrow> dr st b = 0)"

definition held_back :: "stream \<Rightarrow> 'a io_scheme \<Rightarrow> 'a io_scheme \<Rightarrow> bool" where
  "held_back st s t \<longleftrightarrow>
     (\<forall>k. buffers (drain s) st k \<longrightarrow> length (flow st t) \<le> length (content st s) + k \<longrightarrow>
       content st t = content st s)"

text \<open>What the program does before a direct \<open>write(2)\<close>.\<close>

definition sync :: "'a io_scheme \<Rightarrow> 'a io_scheme" where
  "sync s = fflush Stderr (fflush Stdout s)"

section \<open>Laws of the streams\<close>

named_theorems frame_simps

lemmas io_defs = fput_def fflush_def sys_write_def Let_def

lemma fput_frame [frame_simps]:
  "drain (fput st d s) = drain s" "opened (fput st d s) = opened s"
  "io.more (fput st d s) = io.more s"
  by (simp_all add: io_defs)

lemma fflush_frame [frame_simps]:
  "drain (fflush st s) = drain s" "opened (fflush st s) = opened s"
  "io.more (fflush st s) = io.more s"
  by (simp_all add: io_defs)

lemma sys_write_frame [frame_simps]:
  "drain (sys_write st d s) = drain s" "opened (sys_write st d s) = opened s"
  "pending (sys_write st d s) = pending s" "io.more (sys_write st d s) = io.more s"
  by (simp_all add: io_defs)

lemma pending_fflush [simp]:
  "pending (fflush st s) t = (if t = st then [] else pending s t)"
  by (simp add: io_defs)

lemma pending_fput_other: "t \<noteq> st \<Longrightarrow> pending (fput st d s) t = pending s t"
  by (simp add: io_defs)

lemma content_sys_write:
  "content t (sys_write st d s) = (if t = st then content t s @ d else content t s)"
  by (simp add: content_def sys_write_def)

lemma flow_fput: "flow t (fput st d s) = (if t = st then flow t s @ d else flow t s)"
  by (simp add: flow_def content_def io_defs cut_pieces)

lemma flow_fflush [simp]: "flow t (fflush st s) = flow t s"
  by (simp add: flow_def content_def io_defs)

lemma content_fflush: "content st (fflush st s) = flow st s"
  by (simp add: flow_def content_def io_defs)

lemma content_fflush_other: "t \<noteq> st \<Longrightarrow> content t (fflush st s) = content t s"
  by (simp add: content_def io_defs)

lemma flow_sys_write:
  "pending s st = [] \<Longrightarrow>
   flow t (sys_write st d s) = (if t = st then flow t s @ d else flow t s)"
  by (simp add: flow_def content_sys_write frame_simps)

lemma flow_sys_write_other: "t \<noteq> st \<Longrightarrow> flow t (sys_write st d s) = flow t s"
  by (simp add: flow_def content_sys_write frame_simps)

lemma content_fput_other: "t \<noteq> st \<Longrightarrow> content t (fput st d s) = content t s"
  by (simp add: content_def io_defs)

lemma held_back_fput: "held_back t s (fput st d s)"
proof (cases "t = st")
  case True
  have same: "content st (fput st d s) = content st s"
    if "buffers (drain s) st k" "length (pending s st @ d) \<le> k" for k
    using that unfolding buffers_def by (simp add: fput_def content_def)
  have "flow st (fput st d s) = content st s @ pending s st @ d"
    by (simp add: flow_fput) (simp add: flow_def)
  then show ?thesis
    unfolding held_back_def True by (auto intro: same)
qed (simp add: held_back_def content_fput_other)

lemma held_back_same: "content t s' = content t s \<Longrightarrow> held_back t s s'"
  by (simp add: held_back_def)

lemma held_back_trans:
  assumes "held_back t s s'" "held_back t s' s''" "drain s' = drain s"
    and "length (flow t s') \<le> length (flow t s'')"
  shows "held_back t s s''"
  unfolding held_back_def
proof (intro allI impI)
  fix k
  assume k: "buffers (drain s) t k" "length (flow t s'') \<le> length (content t s) + k"
  then have "content t s' = content t s"
    using assms(1,4) by (auto simp: held_back_def)
  moreover from this k have "content t s'' = content t s'"
    using assms(2,3) by (auto simp: held_back_def)
  ultimately show "content t s'' = content t s" by simp
qed

lemma flow_sync [simp]: "flow t (sync s) = flow t s"
  by (simp add: sync_def)

lemma quiet_sync [simp]: "quiet (sync s)"
  by (simp add: quiet_def sync_def)

lemma pending_sync [simp]:
  "pending (sync s) Stdout = []" "pending (sync s) Stderr = []"
  by (simp_all add: sync_def)

lemma tty_sys_write:
  "st = Stdout \<or> st = Stderr \<Longrightarrow> tty (sys_write st d s) = tty s @ d"
  by (auto simp: tty_def sys_write_def)

lemma tty_flow_sync [simp]: "tty_flow (sync s) = tty_flow s"
  by (simp add: tty_flow_def tty_def sync_def io_defs)

lemma tty_flow_fput: "quiet s \<Longrightarrow> tty_flow (fput Stdout d s) = tty_flow s @ d"
  by (simp add: tty_flow_def tty_def quiet_def io_defs cut_pieces)

lemma tty_flow_fflush: "tty_flow (fflush Stdout s) = tty_flow s"
  by (simp add: tty_flow_def tty_def io_defs)

lemma tty_flow_fput_opened: "tty_flow (fput (Opened p) d s) = tty_flow s"
  by (simp add: tty_flow_def tty_def io_defs)

lemma tty_flow_direct:
  "st = Stdout \<or> st = Stderr \<Longrightarrow> tty_flow (sys_write st d (sync s)) = tty_flow s @ d"
proof -
  assume st: "st = Stdout \<or> st = Stderr"
  have "tty (sync s) = tty_flow (sync s)"
    by (simp add: tty_flow_def)
  then have "tty (sync s) = tty_flow s"
    by simp
  with st show ?thesis
    by (simp add: tty_flow_def tty_sys_write frame_simps)
qed

section \<open>Output at the end of the process\<close>

lemma flow_fold_fflush [simp]: "flow t (fold fflush xs s) = flow t s"
  by (induction xs arbitrary: s) simp_all

lemma pending_fold_fflush:
  "pending (fold fflush xs s) t = (if t \<in> set xs then [] else pending s t)"
  by (induction xs arbitrary: s) auto

lemma flush_all_complete:
  "st \<in> {Stdout, Stderr} \<union> set (opened s) \<Longrightarrow> content st (flush_all s) = flow st s"
proof -
  assume st: "st \<in> {Stdout, Stderr} \<union> set (opened s)"
  have "flow st (flush_all s) = flow st s"
    by (simp add: flush_all_def)
  moreover have "st \<in> set (rev (sort (Stdout # Stderr # opened s)))"
    using st by (simp only: set_rev set_sort list.set) auto
  then have "pending (flush_all s) st = []"
    by (simp only: flush_all_def pending_fold_fflush if_True)
  ultimately show ?thesis
    by (simp add: flow_def)
qed

text \<open>\<open>fwrite\<close> obeys the laws of any output call.\<close>

lemma content_fwrite_other: "t \<noteq> st \<Longrightarrow> content t (fwrite st d s) = content t s"
  by (simp add: fwrite_def content_fput_other)

lemma held_back_fwrite: "held_back t s (fwrite st d s)"
  by (simp add: fwrite_def held_back_fput held_back_same)

lemma fwrite_laws:
  "flow t (fwrite st d s) = (if t = st then flow t s @ d else flow t s)"
  "quiet s \<Longrightarrow> tty_flow (fwrite Stdout d s) = tty_flow s @ d"
  "tty_flow (fwrite (Opened p) d s) = tty_flow s"
  "st \<noteq> Stderr \<Longrightarrow> quiet s \<Longrightarrow> quiet (fwrite st d s)"
  by (simp_all add: fwrite_def flow_fput tty_flow_fput tty_flow_fput_opened quiet_def
      pending_fput_other)

section \<open>The interfaces\<close>

text \<open>
  What a formatting routine needs to know of its output stream: bytes are appended.
\<close>

locale channel =
  fixes put :: "string \<Rightarrow> 's \<Rightarrow> 's"
    and sent :: "'s \<Rightarrow> string"
  assumes put_sent: "sent (put d s) = sent s @ d"
begin

lemma puts_sent: "sent (fold put ds s) = sent s @ concat ds"
  by (induction ds arbitrary: s) (simp_all add: put_sent)

lemma puts_once: "sent (fold put ds s) = sent (put (concat ds) s)"
  by (simp add: puts_sent put_sent)

end

text \<open>
  What the marking code needs: buffered text and direct writes, which keep their order on
  a shared device provided that a direct write is preceded by a \<open>sync\<close>.
\<close>

locale terminal =
  fixes put :: "string \<Rightarrow> 's \<Rightarrow> 's"
    and pre :: "'s \<Rightarrow> 's"
    and direct :: "'d \<Rightarrow> string \<Rightarrow> 's \<Rightarrow> 's"
    and devices :: "'d set"
    and screen :: "'s \<Rightarrow> string"
    and calm :: "'s \<Rightarrow> bool"
  assumes put_screen: "calm s \<Longrightarrow> screen (put d s) = screen s @ d"
    and put_calm: "calm s \<Longrightarrow> calm (put d s)"
    and direct_screen: "t \<in> devices \<Longrightarrow> screen (direct t d (pre s)) = screen s @ d"
    and direct_calm: "calm (direct t d (pre s))"
begin

lemma directs_screen:
  "list_all (\<lambda>m. fst m \<in> devices) ms \<Longrightarrow>
   screen (fold (\<lambda>(t, d) s. direct t d (pre s)) ms s) = screen s @ concat (map snd ms)"
  by (induction ms arbitrary: s) (auto simp: direct_screen)

lemma directs_calm:
  "calm s \<Longrightarrow> calm (fold (\<lambda>(t, d) s. direct t d (pre s)) ms s)"
  by (induction ms arbitrary: s) (auto simp: direct_calm)

lemma puts_screen:
  "calm s \<Longrightarrow> screen (fold put ds s) = screen s @ concat ds \<and> calm (fold put ds s)"
  by (induction ds arbitrary: s) (simp_all add: put_screen put_calm)

end

interpretation out: channel "fput st" "flow st" for st
  by unfold_locales (simp add: flow_fput)

interpretation screen: terminal "fput Stdout" sync sys_write "{Stdout, Stderr}" tty_flow quiet
  by unfold_locales
    (auto simp: tty_flow_fput tty_flow_direct quiet_def pending_fput_other frame_simps)

text \<open>
  What a terminal shows is not changed by the flushing at the exit, and is then complete.
\<close>

lemma tty_flush_all:
  assumes "quiet s"
  shows "tty (flush_all s) = tty_flow s"
proof -
  have one: "tty_flow (fflush st s) = tty_flow s \<and> quiet (fflush st s)" if "quiet s"
    for st and s :: "'a io_scheme"
    using that by (cases st) (simp_all add: tty_flow_def tty_def quiet_def io_defs)
  have "tty_flow (fold fflush fs s) = tty_flow s" for fs
    using assms by (induction fs arbitrary: s) (simp_all add: one)
  then have "tty_flow (flush_all s) = tty_flow s" by (simp add: flush_all_def)
  moreover have "st \<in> {Stdout, Stderr} \<Longrightarrow> pending (flush_all s) st = []" for st
    by (simp only: flush_all_def pending_fold_fflush set_rev set_sort list.set) auto
  ultimately show ?thesis by (simp add: tty_flow_def)
qed

end
