(* ===== verification/Format.thy ===== *)
theory Format
  imports Prelude
begin

text \<open>
  The \<open>printf\<close> conversions the program uses, as functions to text: \<open>%d\<close>, \<open>%u\<close> with a
  width, \<open>%zu\<close>, \<open>%02x\<close>, \<open>%#zx\<close>, \<open>%p\<close> and \<open>%s\<close>, and the truncation of \<open>snprintf\<close>.
  The lemmas bound the length of a printed number and show that numbers can be read back.
\<close>

section \<open>Digits\<close>

definition digit_char :: "nat \<Rightarrow> char" where
  "digit_char d = (if d < 10 then char_of (48 + d) else char_of (87 + d))"

definition digit_val :: "char \<Rightarrow> nat" where
  "digit_val c = (let n = (of_char c :: nat) in if n < 58 then n - 48 else n - 87)"

fun num :: "nat \<Rightarrow> nat \<Rightarrow> string" where
  "num b n = (if b < 2 \<or> n < b then [digit_char n] else num b (n div b) @ [digit_char (n mod b)])"

declare num.simps [simp del]

abbreviation dec :: "nat \<Rightarrow> string" where
  "dec \<equiv> num 10"

abbreviation hex :: "nat \<Rightarrow> string" where
  "hex \<equiv> num 16"

definition read_num :: "nat \<Rightarrow> string \<Rightarrow> nat" where
  "read_num b cs = foldl (\<lambda>a c. a * b + digit_val c) 0 cs"

lemma digit_round_trip [simp]: "d < 16 \<Longrightarrow> digit_val (digit_char d) = d"
  by (auto simp: digit_val_def digit_char_def Let_def)

lemma digit_char_not_minus: "d < 16 \<Longrightarrow> digit_char d \<noteq> CHR ''-''"
proof
  assume d: "d < 16" and "digit_char d = CHR ''-''"
  then have "(of_char (digit_char d) :: nat) = of_char (CHR ''-'')" by simp
  with d show False by (simp add: digit_char_def split: if_splits)
qed

theorem read_num_num: "2 \<le> b \<Longrightarrow> b \<le> 16 \<Longrightarrow> read_num b (num b n) = n"
proof (induction b n rule: num.induct)
  case (1 b n)
  show ?case
  proof (cases "n < b")
    case True
    with "1.prems" show ?thesis
      by (simp add: num.simps [of b n] read_num_def)
  next
    case False
    with 1 have "read_num b (num b (n div b)) = n div b" by simp
    moreover have "n mod b < 16"
      using "1.prems" by (simp add: order_less_le_trans [OF mod_less_divisor])
    ultimately show ?thesis
      using False "1.prems" by (simp add: num.simps [of b n] read_num_def div_mult_mod_eq)
  qed
qed

lemma num_inject: "2 \<le> b \<Longrightarrow> b \<le> 16 \<Longrightarrow> num b m = num b n \<longleftrightarrow> m = n"
  using read_num_num [of b m] read_num_num [of b n] by metis

lemma num_nonempty [simp]: "num b n \<noteq> []"
  by (subst num.simps) simp

theorem length_num_le: "2 \<le> b \<Longrightarrow> 0 < k \<Longrightarrow> length (num b n) \<le> k \<longleftrightarrow> n < b ^ k"
proof (induction b n arbitrary: k rule: num.induct)
  case (1 b n)
  then obtain j where k: "k = Suc j" by (cases k) auto
  show ?case
  proof (cases "n < b")
    case True
    have "b ^ 1 \<le> b ^ k"
      using "1.prems" by (intro power_increasing) auto
    with True show ?thesis using "1.prems"
      by (simp add: num.simps [of b n])
  next
    case False
    with "1.prems" have len: "length (num b n) = Suc (length (num b (n div b)))"
      by (simp add: num.simps [of b n])
    show ?thesis
    proof (cases "j = 0")
      case True
      with False k len show ?thesis by simp
    next
      case j: False
      with 1 False have "length (num b (n div b)) \<le> j \<longleftrightarrow> n div b < b ^ j" by simp
      also have "\<dots> \<longleftrightarrow> n < b ^ j * b"
        using "1.prems" by (simp add: less_mult_imp_div_less div_less_iff_less_mult)
      finally show ?thesis using k len by (simp add: mult.commute)
    qed
  qed
qed

section \<open>Conversions\<close>

text \<open>\<open>%d\<close>\<close>

definition fmt_d :: "int \<Rightarrow> string" where
  "fmt_d i = (if i < 0 then CHR ''-'' # dec (nat (- i)) else dec (nat i))"

text \<open>\<open>%02x\<close> of an \<open>int\<close>, which \<open>printf\<close> reads as \<open>unsigned int\<close>\<close>

definition fmt_02x :: "int \<Rightarrow> string" where
  "fmt_02x i = (let h = hex (to_unsigned i) in replicate (2 - length h) CHR ''0'' @ h)"

text \<open>\<open>%<w>u\<close>, right-justified in a field of \<open>w\<close> columns\<close>

definition fmt_wu :: "nat \<Rightarrow> nat \<Rightarrow> string" where
  "fmt_wu w n = replicate (w - length (dec n)) CHR '' '' @ dec n"

text \<open>\<open>%#zx\<close>\<close>

definition fmt_alt_x :: "u64 \<Rightarrow> string" where
  "fmt_alt_x w = (if w = 0 then ''0'' else ''0x'' @ hex (unat w))"

text \<open>\<open>%p\<close> and \<open>%s\<close>, as glibc prints null pointers\<close>

definition fmt_p :: "u64 \<Rightarrow> string" where
  "fmt_p w = (if w = 0 then ''(nil)'' else ''0x'' @ hex (unat w))"

definition fmt_s :: "string option \<Rightarrow> string" where
  "fmt_s p = (case p of None \<Rightarrow> ''(null)'' | Some t \<Rightarrow> t)"

text \<open>The string left in a buffer of \<open>sz\<close> bytes by \<open>snprintf\<close>.\<close>

definition snprintf :: "nat \<Rightarrow> string \<Rightarrow> string" where
  "snprintf sz t = take (sz - 1) t"

abbreviation nl :: string where
  "nl \<equiv> [CHR 0x0A]"

lemma digit_chars [simp]:
  "digit_char 0 = CHR ''0''" "digit_char 1 = CHR ''1''" "digit_char (Suc 0) = CHR ''1''"
  "digit_char 2 = CHR ''2''" "digit_char 3 = CHR ''3''" "digit_char 4 = CHR ''4''"
  "digit_char 5 = CHR ''5''" "digit_char 6 = CHR ''6''" "digit_char 7 = CHR ''7''"
  "digit_char 8 = CHR ''8''" "digit_char 9 = CHR ''9''"
  by code_simp+

lemma dec_digit: "n < 10 \<Longrightarrow> dec n = [digit_char n]"
  by (simp add: num.simps [of 10 n])

text \<open>The first character printed of a number is not a sign.\<close>

lemma hd_num: "2 \<le> b \<Longrightarrow> b \<le> 16 \<Longrightarrow> hd (num b n) \<noteq> CHR ''-''"
proof (induction b n rule: num.induct)
  case (1 b n)
  then show ?case
    by (cases "n < b") (simp_all add: num.simps [of b n] digit_char_not_minus hd_append)
qed

lemma fmt_d_inject: "fmt_d i = fmt_d j \<longleftrightarrow> i = j"
proof -
  have minus: "dec m \<noteq> CHR ''-'' # ds" for m ds
  proof
    assume "dec m = CHR ''-'' # ds"
    then have "hd (dec m) = CHR ''-''" by simp
    with hd_num [of 10 m] show False by simp
  qed
  show ?thesis
    using minus minus [symmetric] by (auto simp: fmt_d_def num_inject)
qed

lemma fmt_d_length:
  "length (fmt_d i) \<le> 11 \<longleftrightarrow> -10000000000 < i \<and> i < 100000000000"
proof -
  have "length (dec n) \<le> 10 \<longleftrightarrow> n < 10000000000"
    and "length (dec n) \<le> 11 \<longleftrightarrow> n < 100000000000" for n
    using length_num_le [of 10 10 n] length_num_le [of 10 11 n] by simp_all
  then show ?thesis
    by (auto simp: fmt_d_def nat_less_iff)
qed

lemma to_unsigned_nonneg: "0 \<le> i \<Longrightarrow> i < 2 ^ 32 \<Longrightarrow> to_unsigned i = nat i"
  by (simp add: to_unsigned_def unat_eq_nat_uint uint_word_of_int take_bit_eq_mod)

lemma to_unsigned_neg:
  "-(2 ^ 31) \<le> i \<Longrightarrow> i < 0 \<Longrightarrow> to_unsigned i = nat (i + 2 ^ 32)"
proof -
  assume i: "-(2 ^ 31) \<le> i" "i < 0"
  then have "i mod 2 ^ 32 = (i + 2 ^ 32) mod 2 ^ 32" by simp
  also have "\<dots> = i + 2 ^ 32" using i by (intro mod_pos_pos_trivial) simp_all
  finally show ?thesis
    by (simp add: to_unsigned_def unat_eq_nat_uint uint_word_of_int take_bit_eq_mod)
qed

text \<open>Two columns for a small value, eight for a negative one.\<close>

lemma length_fmt_02x_small: "0 \<le> i \<Longrightarrow> i < 256 \<Longrightarrow> length (fmt_02x i) = 2"
  using length_num_le [of 16 2 "nat i"] num_nonempty [of 16 "nat i"]
  by (cases "length (hex (nat i))") (auto simp: fmt_02x_def Let_def to_unsigned_nonneg)

lemma length_fmt_02x_neg:
  assumes "-128 \<le> i" "i < 0"
  shows "length (fmt_02x i) = 8"
proof -
  have n: "to_unsigned i = nat (i + 2 ^ 32)"
    using assms by (intro to_unsigned_neg) simp_all
  have "length (hex (nat (i + 2 ^ 32))) \<le> 8" "\<not> length (hex (nat (i + 2 ^ 32))) \<le> 7"
    using assms by (simp_all add: length_num_le nat_less_iff)
  with n show ?thesis by (simp add: fmt_02x_def Let_def)
qed

end
