(* ===== verification/Globals.thy ===== *)
theory Globals
  imports Stdio Format
begin

text \<open>
  The global variables shared by the library and the command (\<open>src/inc/cscript.h\<close>: the
  streams \<open>errprint_fh\<close> and \<open>dbgprint_fh\<close>, the flags \<open>verbose\<close> and \<open>debug\<close>) and the
  printing macros over them. The record extends the state of stdio; the other components
  extend it further with their own static variables.

  \<open>libc\<close> holds the tables of the C library the program looks things up in, which are not
  part of this repository: the messages of \<open>strerror_r\<close>, the signal descriptions of
  \<open>_sys_siglist\<close>, and the limits of the real-time signals.
\<close>

record libc =
  strerror :: "int \<Rightarrow> string"
  sys_siglist :: "int \<Rightarrow> string option"
  sigrtmin :: int
  sigrtmax :: int

record glob = io +
  clib :: libc
  verbose :: bool
  debug :: bool
  errprint_fh :: "stream option"
  dbgprint_fh :: "stream option"

text \<open>A C library with no signal descriptions and the limits of Linux.\<close>

definition plain_libc :: libc where
  "plain_libc = \<lparr>strerror = (\<lambda>_. ''error''), sys_siglist = (\<lambda>_. None),
     sigrtmin = 34, sigrtmax = 64\<rparr>"

text \<open>The globals before \<open>main\<close>: C sets them to zeros.\<close>

definition init_glob :: glob where
  "init_glob = io.extend init_io (glob.fields plain_libc False False None None)"

declare plain_libc_def [init_states] init_glob_def [init_states] glob.defs [init_states]

definition eprint :: "string \<Rightarrow> ('a glob_scheme, unit) prog" where
  "eprint t = withs (\<lambda>s. fputs t (errprint_fh s))"

text \<open>\<open>eprintf\<close> is given the formatted text.\<close>

definition eprintf :: "string \<Rightarrow> ('a glob_scheme, unit) prog" where
  "eprintf t = withs (\<lambda>s. fputs t (errprint_fh s))"

definition dbg_printf :: "string \<Rightarrow> ('a glob_scheme, unit) prog" where
  "dbg_printf t = withs (\<lambda>s. whenp (debug s) (fputs t (dbgprint_fh s)))"

text \<open>
  The macros of the header that no source uses. \<open>putc\<close> converts its argument to \<open>unsigned
  char\<close>; the file, line and function of \<open>HERE\<close> and \<open>HERE_FN\<close> are those of the place where
  they stand. \<open>dbg_print\<close> and \<open>dbg_putchar\<close>, unlike \<open>dbg_printf\<close>, do not look at \<open>debug\<close>.
\<close>

definition eputchar :: "int \<Rightarrow> ('a glob_scheme, unit) prog" where
  "eputchar c = withs (\<lambda>s. fputs [char_of c] (errprint_fh s))"

definition dbg_print :: "string \<Rightarrow> ('a glob_scheme, unit) prog" where
  "dbg_print t = withs (\<lambda>s. fputs t (dbgprint_fh s))"

definition dbg_putchar :: "int \<Rightarrow> ('a glob_scheme, unit) prog" where
  "dbg_putchar c = withs (\<lambda>s. fputs [char_of c] (dbgprint_fh s))"

definition HERE :: "string \<Rightarrow> int \<Rightarrow> ('a glob_scheme, unit) prog" where
  "HERE file line = dbg_printf (nl @ ''===> '' @ file @ '', line '' @ dec (to_unsigned line) @ nl)"

definition HERE_FN :: "string \<Rightarrow> int \<Rightarrow> string \<Rightarrow> ('a glob_scheme, unit) prog" where
  "HERE_FN file line fn =
     dbg_printf (nl @ ''===> '' @ file @ '', line '' @ dec (to_unsigned line) @ '', '' @ fn @ nl)"

lemma fputs_Some [prog_simps]: "fputs t (Some st) = upd (fput st t)"
  by (simp add: fputs_def)

lemma fputs_None [prog_simps]: "fputs t None = die (Fault Null_stream)"
  by (simp add: fputs_def)

lemma glob_io_frame [frame_simps]:
  "clib (fput st d s) = clib s" "verbose (fput st d s) = verbose s"
  "debug (fput st d s) = debug s" "errprint_fh (fput st d s) = errprint_fh s"
  "dbgprint_fh (fput st d s) = dbgprint_fh s"
  "clib (fflush st s) = clib s" "verbose (fflush st s) = verbose s"
  "debug (fflush st s) = debug s" "errprint_fh (fflush st s) = errprint_fh s"
  "dbgprint_fh (fflush st s) = dbgprint_fh s"
  "clib (sys_write st d s) = clib s" "verbose (sys_write st d s) = verbose s"
  "debug (sys_write st d s) = debug s" "errprint_fh (sys_write st d s) = errprint_fh s"
  "dbgprint_fh (sys_write st d s) = dbgprint_fh s"
  by (simp_all add: io_defs)

text \<open>With \<open>debug\<close> off, debug printing does nothing; with it on and no stream, it faults.\<close>

lemma dbg_printf_off: "\<not> debug s \<Longrightarrow> dbg_printf t s = (Inr (), s)"
  by (simp add: dbg_printf_def prog_simps)

lemma dbg_printf_null:
  "debug s \<Longrightarrow> dbgprint_fh s = None \<Longrightarrow> dbg_printf t s = (Inl (Fault Null_stream), s)"
  by (simp add: dbg_printf_def prog_simps)

text \<open>The two macros that do not look at \<open>debug\<close> fault without a stream, debugging or not.\<close>

lemma dbg_print_null:
  "dbgprint_fh s = None \<Longrightarrow> dbg_print t s = (Inl (Fault Null_stream), s)"
  "dbgprint_fh s = None \<Longrightarrow> dbg_putchar c s = (Inl (Fault Null_stream), s)"
  by (simp_all add: dbg_print_def dbg_putchar_def prog_simps)

end
