(* ===== verification/Show_Str.thy ===== *)
theory Show_Str
  imports Globals
begin

text \<open>
  Visible representations of characters and strings:
  \<open>src/libcscript/show-char.c\<close>, \<open>fshow-str.c\<close> and \<open>fshow-str-array.c\<close>.

  The lemmas give the text written for strings of 7-bit characters, and show that exactly
  the other strings make \<open>show_char_r\<close> write past its 8-byte buffer: a negative \<open>chr\<close> is
  printed by \<open>%02x\<close> as eight digits.
\<close>

section \<open>show-char.c\<close>

text \<open>
  The string left in \<open>buf\<close>, whose capacity is \<open>sz\<close>; the length returned is its length.
\<close>

definition show_char_r :: "nat \<Rightarrow> int \<Rightarrow> ('a glob_scheme, string) prog" where
  "show_char_r sz chr =
     (if \<not> 5 \<le> sz then
        bindp (eprintf (''show_char_r: buffer size is '' @ dec sz @ ''.  It must be >= 5.'' @ nl))
          (\<lambda>_. die Abort)
      else if isprint chr then ret [char_of chr]
      else
        (let t = CHR 0x5C # ''x'' @ fmt_02x chr in
         if length t < sz then ret t else die (Fault Buffer_overflow)))"

section \<open>fshow-str.c\<close>

text \<open>The loop over the string; \<open>dbuf\<close> has 8 bytes.\<close>

primrec fshow_str :: "stream option \<Rightarrow> string \<Rightarrow> ('a glob_scheme, unit) prog" where
  "fshow_str f [] = ret ()"
| "fshow_str f (c # str) =
     bindp (show_char_r 8 (schar c)) (\<lambda>dbuf. bindp (fputs dbuf f) (\<lambda>_. fshow_str f str))"

section \<open>fshow-str-array.c\<close>

text \<open>
  \<open>av[i]\<close> for \<open>i\<close> past the last string is the null pointer that ends an \<open>argv\<close>. In C the
  index is an \<open>unsigned int\<close>: the model is that of a count \<open>ac\<close> below \<open>2 ^ 32\<close>, where it
  does not wrap around (the kernel bounds an argument list far below this).
\<close>

function fshow_rows ::
  "stream option \<Rightarrow> nat \<Rightarrow> nat \<Rightarrow> string list \<Rightarrow> nat \<Rightarrow> ('a glob_scheme, unit) prog" where
  "fshow_rows f maxw ac av i =
     (if i < ac then
        bindp (seqp [
          fputs (fmt_wu maxw i) f,
          fputs '') ['' f,
          (if i < length av then fshow_str f (av ! i) else die (Fault Null_deref)),
          fputs ('']'' @ nl) f])
        (\<lambda>_. fshow_rows f maxw ac av (Suc i))
      else ret ())"
  by pat_completeness auto
termination
  by (relation "measure (\<lambda>(f, maxw, ac, av, i). ac - i)") auto

declare fshow_rows.simps [simp del]

text \<open>The format buffer \<open>nfmt\<close> has 20 bytes.\<close>

definition fshow_str_array ::
  "stream option \<Rightarrow> nat \<Rightarrow> string list \<Rightarrow> ('a glob_scheme, unit) prog" where
  "fshow_str_array f ac av =
     (if 20 \<le> length (dec ac) then die (Fault Buffer_overflow)
      else fshow_rows f (length (dec ac)) ac av 0)"

section \<open>The visible representation\<close>

definition ascii :: "string \<Rightarrow> bool" where
  "ascii = list_all (\<lambda>c. (of_char c :: nat) < 128)"

definition vis :: "char \<Rightarrow> string" where
  "vis c = (if isprint (schar c) then [c] else CHR 0x5C # ''x'' @ fmt_02x (schar c))"

abbreviation vis_str :: "string \<Rightarrow> string" where
  "vis_str str \<equiv> concat (map vis str)"

lemma ascii_simps [simp]:
  "ascii []" "ascii (c # str) \<longleftrightarrow> (of_char c :: nat) < 128 \<and> ascii str"
  by (simp_all add: ascii_def)

lemma show_char_r_ascii [simp]:
  assumes "(of_char c :: nat) < 128"
  shows "show_char_r 8 (schar c) s = (Inr (vis c), s)"
proof -
  have "0 \<le> schar c" "schar c < 256"
    using assms schar_range [of c] by (simp_all add: schar_nonneg)
  then have "length (fmt_02x (schar c)) = 2"
    by (rule length_fmt_02x_small)
  then show ?thesis
    by (simp add: show_char_r_def vis_def Let_def prog_simps schar_print)
qed

lemma show_char_r_high [simp]:
  assumes "\<not> (of_char c :: nat) < 128"
  shows "show_char_r 8 (schar c) s = (Inl (Fault Buffer_overflow), s)"
proof -
  have neg: "-128 \<le> schar c" "schar c < 0"
    using assms schar_range [of c] by (simp_all add: schar_nonneg)
  then have "length (fmt_02x (schar c)) = 8"
    by (rule length_fmt_02x_neg)
  with neg show ?thesis
    by (simp add: show_char_r_def isprint_def Let_def prog_simps)
qed

text \<open>Output of a 7-bit string is the puts of its representations, one by one.\<close>

lemma fshow_str_ascii:
  "ascii str \<Longrightarrow> fshow_str (Some st) str s = (Inr (), fold (fput st) (map vis str) s)"
  by (induction str arbitrary: s)
    (simp_all add: prog_simps)

lemma fshow_str_fault:
  "\<not> ascii str \<Longrightarrow> fst (fshow_str (Some st) str s) = Inl (Fault Buffer_overflow)"
proof (induction str arbitrary: s)
  case Nil
  then show ?case by simp
next
  case (Cons c str)
  show ?case
  proof (cases "(of_char c :: nat) < 128")
    case True
    with Cons show ?thesis
      by (simp add: prog_simps)
  next
    case False
    then show ?thesis
      by (simp add: prog_simps)
  qed
qed

lemma vis_printable:
  assumes "(of_char c :: nat) < 128" "x \<in> set (vis c)"
  shows "isprint (schar x)"
proof (cases "isprint (schar c)")
  case True
  with assms show ?thesis by (simp add: vis_def)
next
  case False
  have c: "0 \<le> schar c" "schar c < 128"
    using assms schar_range [of c] by (simp_all add: schar_nonneg)
  have digit: "isprint (schar (digit_char d))" if "d < 16" for d
    using that by (auto simp: digit_char_def schar_char_of isprint_def)
  have "set (num 16 n) \<subseteq> digit_char ` {..<16}" for n
  proof (induction "16 :: nat" n rule: num.induct)
    case (1 n)
    then show ?case
      by (cases "n < 16") (auto simp: num.simps [of 16 n])
  qed
  with digit have "isprint (schar y)" if "y \<in> set (hex n)" for y n
    using that by blast
  with False assms(2) show ?thesis
    by (auto simp: vis_def fmt_02x_def Let_def) (simp_all add: schar_def isprint_def)
qed

section \<open>Properties\<close>

text \<open>
  For a string of 7-bit characters \<open>fshow_str\<close> returns, appends to the stream exactly
  the representations of the characters in order, and every character it writes is
  printable: nothing is hidden and nothing can make a terminal misbehave.
\<close>

lemma fshow_str_correct:
  assumes "ascii str"
  shows "\<exists>s'. fshow_str (Some st) str s = (Inr (), s') \<and>
    flow st s' = flow st s @ vis_str str \<and> (\<forall>x \<in> set (vis_str str). isprint (schar x))"
proof -
  have "\<forall>x \<in> set (vis_str str). isprint (schar x)"
    using assms by (induction str) (auto dest: vis_printable)
  with assms show ?thesis
    by (simp add: fshow_str_ascii out.puts_sent)
qed

text \<open>
  C27: \<open>fshow_str\<close> overruns the 8-byte buffer it gives to \<open>show_char_r\<close> exactly when the
  string has a byte of 128 or more, whatever the stream and the state.
\<close>

theorem fshow_str_overflow_iff:
  "fst (fshow_str (Some st) str s) = Inl (Fault Buffer_overflow) \<longleftrightarrow> \<not> ascii str"
  by (cases "ascii str") (simp_all add: fshow_str_ascii fshow_str_fault)

section \<open>Numbered arrays\<close>

definition row :: "nat \<Rightarrow> nat \<Rightarrow> string \<Rightarrow> string" where
  "row w i str = fmt_wu w i @ '') ['' @ vis_str str @ '']'' @ nl"

lemma fshow_rows_correct:
  "list_all ascii av \<Longrightarrow> i \<le> length av \<Longrightarrow>
   \<exists>s'. fshow_rows (Some st) w (length av) av i s = (Inr (), s') \<and>
     flow st s' = flow st s @ concat (map (\<lambda>j. row w j (av ! j)) [i..<length av])"
proof (induction "length av - i" arbitrary: i s)
  case 0
  then show ?case by (simp add: fshow_rows.simps [of _ _ _ _ i] prog_simps)
next
  case (Suc n)
  then have i: "i < length av" and asc: "ascii (av ! i)"
    by (auto simp: list_all_length)
  obtain s1 where step: "fshow_rows (Some st) w (length av) av i s =
        fshow_rows (Some st) w (length av) av (Suc i) s1"
      and flow: "flow st s1 = flow st s @ row w i (av ! i)"
  proof
    let ?s1 = "fput st ('']'' @ nl) (fold (fput st) (map vis (av ! i))
      (fput st '') ['' (fput st (fmt_wu w i) s)))"
    show "fshow_rows (Some st) w (length av) av i s =
        fshow_rows (Some st) w (length av) av (Suc i) ?s1"
      using i by (simp add: fshow_rows.simps [of _ _ _ _ i] prog_simps fshow_str_ascii [OF asc])
    show "flow st ?s1 = flow st s @ row w i (av ! i)"
      by (simp add: row_def flow_fput out.puts_sent)
  qed
  have "\<exists>s'. fshow_rows (Some st) w (length av) av (Suc i) s1 = (Inr (), s') \<and>
    flow st s' = flow st s1 @ concat (map (\<lambda>j. row w j (av ! j)) [Suc i..<length av])"
    using Suc.hyps(2) Suc.prems i by (intro Suc.hyps(1)) simp_all
  with step flow i show ?case
    by (simp add: upt_conv_Cons)
qed

lemma fshow_rows_fault:
  "\<not> list_all ascii (drop i av) \<Longrightarrow>
   fst (fshow_rows (Some st) w (length av) av i s) = Inl (Fault Buffer_overflow)"
proof (induction "length av - i" arbitrary: i s)
  case 0
  then show ?case by simp
next
  case (Suc n)
  then have i: "i < length av" by simp
  show ?case
  proof (cases "ascii (av ! i)")
    case True
    with Suc.prems i have "\<not> list_all ascii (drop (Suc i) av)"
      by (simp add: Cons_nth_drop_Suc [symmetric])
    with Suc.hyps i True show ?thesis
      by (simp add: fshow_rows.simps [of _ _ _ _ i] prog_simps fshow_str_ascii)
  next
    case False
    have "fst (fshow_str (Some st) (av ! i) s) = Inl (Fault Buffer_overflow)" for s :: "'a glob_scheme"
      using False by (rule fshow_str_fault)
    with i show ?thesis
      by (simp add: fshow_rows.simps [of _ _ _ _ i] prog_simps split: prod.split sum.split)
        (metis fst_conv sum.distinct(1) sum.inject(1))
  qed
qed

text \<open>
  C28: for an \<open>argv\<close> of fewer than \<open>2 ^ 32\<close> strings of 7-bit characters,
  \<open>fshow_str_array\<close> returns and writes one row for each string, in order: its index,
  right-justified in a column just wide enough for the count, and the string's
  representation in brackets; no row's index is wider than the column. If one of the strings
  has a byte of 128 or more, the call overruns a buffer instead.
\<close>

theorem fshow_str_array_correct:
  assumes "length av < 2 ^ 32"
  shows "if list_all ascii av then
    \<exists>s'. fshow_str_array (Some st) (length av) av s = (Inr (), s') \<and>
      flow st s' = flow st s @
        concat (map (\<lambda>i. row (length (dec (length av))) i (av ! i)) [0..<length av]) \<and>
      (\<forall>i < length av. length (fmt_wu (length (dec (length av))) i) = length (dec (length av)))
    else fst (fshow_str_array (Some st) (length av) av s) = Inl (Fault Buffer_overflow)"
proof -
  have "length av < 10 ^ 19" using assms by simp
  then have "length (dec (length av)) \<le> 19"
    by (simp add: length_num_le)
  then have rows: "fshow_str_array (Some st) (length av) av s =
      fshow_rows (Some st) (length (dec (length av))) (length av) av 0 s"
    by (simp add: fshow_str_array_def)
  have "length (fmt_wu (length (dec (length av))) i) = length (dec (length av))"
    if "i < length av" for i
  proof -
    have "length (dec n) \<le> length (dec m)" if "n \<le> m" for n m
    proof -
      have "m < 10 ^ length (dec m)" using length_num_le [of 10 "length (dec m)" m] by simp
      with that have "n < 10 ^ length (dec m)" by simp
      then show ?thesis using length_num_le [of 10 "length (dec m)" n] by simp
    qed
    from this [of i "length av"] that show ?thesis by (simp add: fmt_wu_def)
  qed
  then show ?thesis
    using fshow_rows_correct [of av 0 st "length (dec (length av))" s]
      fshow_rows_fault [of 0 av st "length (dec (length av))" s]
    by (simp add: rows)
qed

theorem fshow_str_array_correct_witness:
  "(\<exists>s'. fshow_str_array (Some Stderr) (length [''ls'', ''-l'']) [''ls'', ''-l''] init_glob = (Inr (), s') \<and>
    flow Stderr s' = flow Stderr init_glob @
      concat (map (\<lambda>i. row (length (dec (length [''ls'', ''-l'']))) i ([''ls'', ''-l''] ! i))
        [0..<length [''ls'', ''-l'']])) \<and>
   fst (fshow_str_array (Some Stderr) (length [''ls'', [CHR 0xE9]]) [''ls'', [CHR 0xE9]] init_glob) =
     Inl (Fault Buffer_overflow)"
proof -
  have asc: "list_all ascii [''ls'', ''-l'']" "\<not> list_all ascii [''ls'', [CHR 0xE9]]"
    by simp_all
  show ?thesis
    using fshow_str_array_correct [of "[''ls'', ''-l'']" Stderr init_glob]
      fshow_str_array_correct [of "[''ls'', [CHR 0xE9]]" Stderr init_glob]
    unfolding if_P [OF asc(1)] if_not_P [OF asc(2)] by simp blast
qed

end
