(* ===== verification/Mark_Write.thy ===== *)
theory Mark_Write
  imports Show_Str
begin

text \<open>
  The marks written around stdout and stderr: \<open>src/liberrmark/mark-write.c\<close>. The record
  adds the file's static variables to the globals: the start and end strings of the two
  descriptors and \<open>cur_fd\<close>, the descriptor written to last.

  C strings are lists of characters without the terminating NUL. The lemmas give the
  meaning of a mark specification, and show that a sequence of \<open>before_write\<close> calls
  implements the abstract marker: what it writes is the text of the switches from
  descriptor to descriptor.
\<close>

record marks = glob +
  start1 :: "string option"
  end1 :: "string option"
  start2 :: "string option"
  end2 :: "string option"
  cur_fd :: int

text \<open>The file's statics before \<open>main\<close>: no marks, and no descriptor written to.\<close>

definition init_marks :: marks where
  "init_marks = glob.extend init_glob (marks.fields None None None None (-1))"

declare init_marks_def [init_states] marks.defs [init_states]

section \<open>Setting the marks\<close>

text \<open>
  \<open>strndup(p, n)\<close>: with \<open>n = 0\<close> nothing is read, and glibc returns an empty string even
  for a null pointer. Memory is taken to be available here and in \<open>strdup\<close>.
\<close>

definition strndup :: "string option \<Rightarrow> nat \<Rightarrow> halt + string option" where
  "strndup p n =
     (case p of Some t \<Rightarrow> Inr (Some (take n t))
      | None \<Rightarrow> (if n = 0 then Inr (Some []) else Inl (Fault Null_deref)))"

text \<open>The text of the debugging output of \<open>parse_mark_specs\<close>.\<close>

definition dbg_mark :: "string \<Rightarrow> string option \<Rightarrow> ('a glob_scheme, unit) prog" where
  "dbg_mark label m = withs (\<lambda>s. seqp [
     fputs (label @ ''=['') (dbgprint_fh s),
     (case m of None \<Rightarrow> die (Fault Null_deref) | Some t \<Rightarrow> fshow_str (dbgprint_fh s) t),
     fputs ('']'' @ nl) (dbgprint_fh s)])"

text \<open>\<open>while (*s && *s != fsep) ++s;\<close> gives the number of steps.\<close>

fun scan_sep :: "char \<Rightarrow> string \<Rightarrow> nat" where
  "scan_sep fsep [] = 0"
| "scan_sep fsep (c # s) = (if c \<noteq> fsep then Suc (scan_sep fsep s) else 0)"

text \<open>\<open>while (*s) ++s;\<close>\<close>

fun scan_end :: "string \<Rightarrow> nat" where
  "scan_end [] = 0"
| "scan_end (c # s) = Suc (scan_end s)"

text \<open>
  The pointers and lengths found after the separator \<open>fsep\<close>; a pointer is the string it
  points to. After the second loop \<open>*s\<close> is the terminating NUL.
\<close>

definition scan_marks :: "char \<Rightarrow> string \<Rightarrow> (string option \<times> nat) \<times> (string option \<times> nat)" where
  "scan_marks fsep s =
     (let mark_start = Some s;
          mark_start_len = scan_sep fsep s;
          s1 = drop mark_start_len s;
          (mark_end, mark_end_len) =
            (case s1 of
               c # s2 \<Rightarrow>
                 (if c = fsep then (Some s2, (if CHR 0x00 = fsep then scan_end s2 - 1 else scan_end s2))
                  else (None, 0))
             | [] \<Rightarrow> (None, 0));
          mark_start = (if mark_start_len = 0 then None else mark_start);
          mark_end = (if mark_end_len = 0 then None else mark_end)
      in ((mark_start, mark_start_len), (mark_end, mark_end_len)))"

definition parse_mark_specs :: "string \<Rightarrow> ('a marks_scheme, bool) prog" where
  "parse_mark_specs mspec =
     (case mspec of
        [] \<Rightarrow> ret False
      | c # s \<Rightarrow>
         if c = CHR ''1'' \<or> c = CHR ''2'' then
           (let fd = schar c - 48 in
            case s of
              [] \<Rightarrow> ret True
            | fsep # s \<Rightarrow>
               (case scan_marks fsep s of ((mark_start, mark_start_len), (mark_end, mark_end_len)) \<Rightarrow>
                bindp (lift_res (strndup mark_start mark_start_len)) (\<lambda>m_start.
                bindp (lift_res (strndup mark_end mark_end_len)) (\<lambda>m_end.
                bindp (seqp [
                  whenp (fd = 1) (seqp [
                    upd (\<lambda>s. s\<lparr>start1 := m_start, end1 := m_end\<rparr>),
                    withs (\<lambda>s. whenp (debug s)
                      (seqp [dbg_mark ''start1'' m_start, dbg_mark ''end1  '' m_end]))]),
                  whenp (fd = 2) (seqp [
                    upd (\<lambda>s. s\<lparr>start2 := m_start, end2 := m_end\<rparr>),
                    withs (\<lambda>s. whenp (debug s)
                      (seqp [dbg_mark ''start2'' m_start, dbg_mark ''end2  '' m_end]))])])
                (\<lambda>_. ret True)))))
         else ret False)"

definition setmark :: "int \<Rightarrow> string \<Rightarrow> string \<Rightarrow> ('a marks_scheme, bool) prog" where
  "setmark fd m_start m_end =
     (if fd = 1 then
        bindp (upd (\<lambda>s. s\<lparr>start1 := Some m_start, end1 := Some m_end\<rparr>)) (\<lambda>_. ret True)
      else if fd = 2 then
        bindp (upd (\<lambda>s. s\<lparr>start2 := Some m_start, end2 := Some m_end\<rparr>)) (\<lambda>_. ret True)
      else
        bindp (fputs (''fd='' @ fmt_d fd @ '' -- only fd 1 or 2 are supported.'' @ nl) (Some Stderr))
          (\<lambda>_. ret False))"

section \<open>Writing the marks\<close>

definition write_start_stdout :: "'a marks_scheme \<Rightarrow> 'a marks_scheme" where
  "write_start_stdout s =
     (case start1 s of None \<Rightarrow> s
      | Some m \<Rightarrow> sys_write Stdout m (fflush Stderr (fflush Stdout s)))"

definition write_end_stdout :: "'a marks_scheme \<Rightarrow> 'a marks_scheme" where
  "write_end_stdout s =
     (case end1 s of None \<Rightarrow> s
      | Some m \<Rightarrow> sys_write Stdout m (fflush Stderr (fflush Stdout s)))"

definition write_start_stderr :: "'a marks_scheme \<Rightarrow> 'a marks_scheme" where
  "write_start_stderr s =
     (case start2 s of None \<Rightarrow> s
      | Some m \<Rightarrow> sys_write Stderr m (fflush Stderr (fflush Stdout s)))"

definition write_end_stderr :: "'a marks_scheme \<Rightarrow> 'a marks_scheme" where
  "write_end_stderr s =
     (case end2 s of None \<Rightarrow> s
      | Some m \<Rightarrow> sys_write Stderr m (fflush Stderr (fflush Stdout s)))"

definition switch_from_fd :: "int \<Rightarrow> 'a marks_scheme \<Rightarrow> 'a marks_scheme" where
  "switch_from_fd fd s =
     (let s = (if fd = 1 then write_end_stdout s else s)
      in if fd = 2 then write_end_stderr s else s)"

definition switch_to_fd :: "int \<Rightarrow> 'a marks_scheme \<Rightarrow> 'a marks_scheme" where
  "switch_to_fd fd s =
     (let s = (if fd = 1 then write_start_stdout s else s)
      in if fd = 2 then write_start_stderr s else s)"

text \<open>\<open>buf\<close> is an address in the traced process; \<open>(size_t)(-1)\<close> is the largest word.\<close>

definition before_write :: "int \<Rightarrow> u64 \<Rightarrow> u64 \<Rightarrow> 'a marks_scheme \<Rightarrow> 'a marks_scheme" where
  "before_write fd buf len s =
     (if buf = 0 \<or> len = -1 then s
      else if (fd = 1 \<or> fd = 2) \<and> fd \<noteq> cur_fd s then
        (let s = switch_from_fd (cur_fd s) s; s = switch_to_fd fd s in s\<lparr>cur_fd := fd\<rparr>)
      else s)"

definition after_write :: "int \<Rightarrow> u64 \<Rightarrow> u64 \<Rightarrow> 'a marks_scheme \<Rightarrow> 'a marks_scheme" where
  "after_write fd buf len s =
     (if \<not> (fd = 1 \<or> fd = 2) then s else if buf = 0 \<or> len = -1 then s else s)"

definition mark_open :: "'a marks_scheme \<Rightarrow> 'a marks_scheme" where
  "mark_open s = s\<lparr>cur_fd := -1\<rparr>"

definition mark_close :: "'a marks_scheme \<Rightarrow> 'a marks_scheme" where
  "mark_close s = switch_from_fd (cur_fd s) s"

section \<open>Frame facts\<close>

lemma marks_io_frame [frame_simps]:
  "start1 (fput st d s) = start1 s" "end1 (fput st d s) = end1 s"
  "start2 (fput st d s) = start2 s" "end2 (fput st d s) = end2 s"
  "cur_fd (fput st d s) = cur_fd s"
  "start1 (fflush st s) = start1 s" "end1 (fflush st s) = end1 s"
  "start2 (fflush st s) = start2 s" "end2 (fflush st s) = end2 s"
  "cur_fd (fflush st s) = cur_fd s"
  "start1 (sys_write st d s) = start1 s" "end1 (sys_write st d s) = end1 s"
  "start2 (sys_write st d s) = start2 s" "end2 (sys_write st d s) = end2 s"
  "cur_fd (sys_write st d s) = cur_fd s"
  by (simp_all add: io_defs)

text \<open>Assigning the statics does not change what has been output.\<close>

lemma output_statics [simp]:
  "tty_flow (s\<lparr>cur_fd := i\<rparr>) = tty_flow s" "flow st (s\<lparr>cur_fd := i\<rparr>) = flow st s"
  "quiet (s\<lparr>cur_fd := i\<rparr>) = quiet s" "content st (s\<lparr>cur_fd := i\<rparr>) = content st s"
  "tty_flow (s\<lparr>start1 := a, end1 := b\<rparr>) = tty_flow s"
  "tty_flow (s\<lparr>start2 := a, end2 := b\<rparr>) = tty_flow s"
  by (simp_all add: tty_flow_def tty_def flow_def content_def quiet_def)

section \<open>The abstract marker\<close>

text \<open>The marks of a descriptor, as the pair of its start and end strings.\<close>

definition start_mark :: "'a marks_scheme \<Rightarrow> int \<Rightarrow> (stream \<times> string) list" where
  "start_mark s fd =
     (if fd = 1 then (case start1 s of None \<Rightarrow> [] | Some m \<Rightarrow> [(Stdout, m)])
      else if fd = 2 then (case start2 s of None \<Rightarrow> [] | Some m \<Rightarrow> [(Stderr, m)])
      else [])"

definition end_mark :: "'a marks_scheme \<Rightarrow> int \<Rightarrow> (stream \<times> string) list" where
  "end_mark s fd =
     (if fd = 1 then (case end1 s of None \<Rightarrow> [] | Some m \<Rightarrow> [(Stdout, m)])
      else if fd = 2 then (case end2 s of None \<Rightarrow> [] | Some m \<Rightarrow> [(Stderr, m)])
      else [])"

text \<open>Direct writes, each after the streams have been flushed.\<close>

definition write_marks :: "(stream \<times> string) list \<Rightarrow> 'a io_scheme \<Rightarrow> 'a io_scheme" where
  "write_marks ms s = fold (\<lambda>(st, m) s. sys_write st m (sync s)) ms s"

lemma switch_from_fd_marks: "switch_from_fd fd s = write_marks (end_mark s fd) s"
  by (auto simp: switch_from_fd_def write_marks_def end_mark_def write_end_stdout_def
      write_end_stderr_def sync_def split: option.splits)

lemma switch_to_fd_marks: "switch_to_fd fd s = write_marks (start_mark s fd) s"
  by (auto simp: switch_to_fd_def write_marks_def start_mark_def write_start_stdout_def
      write_start_stderr_def sync_def split: option.splits)

lemma write_marks_frame [frame_simps]:
  "start1 (write_marks ms s) = start1 s" "end1 (write_marks ms s) = end1 s"
  "start2 (write_marks ms s) = start2 s" "end2 (write_marks ms s) = end2 s"
  "cur_fd (write_marks ms s) = cur_fd s"
  by (induction ms arbitrary: s) (auto simp: write_marks_def sync_def frame_simps)

lemma write_marks_append: "write_marks (ms @ ns) s = write_marks ns (write_marks ms s)"
  by (simp add: write_marks_def)

lemma marks_of_frame:
  "start_mark (write_marks ms s) fd = start_mark s fd" "end_mark (write_marks ms s) fd = end_mark s fd"
  "start_mark (s\<lparr>cur_fd := i\<rparr>) fd = start_mark s fd" "end_mark (s\<lparr>cur_fd := i\<rparr>) fd = end_mark s fd"
  "start_mark (fput st d s) fd = start_mark s fd" "end_mark (fput st d s) fd = end_mark s fd"
  "start_mark (fflush st s) fd = start_mark s fd" "end_mark (fflush st s) fd = end_mark s fd"
  by (simp_all add: start_mark_def end_mark_def frame_simps)

definition on_terminal :: "(stream \<times> string) list \<Rightarrow> bool" where
  "on_terminal = list_all (\<lambda>m. fst m \<in> {Stdout, Stderr})"

lemma on_terminal_marks [simp]: "on_terminal (start_mark s fd)" "on_terminal (end_mark s fd)"
  by (auto simp: on_terminal_def start_mark_def end_mark_def split: option.splits if_splits)

lemma on_terminal_append [simp]: "on_terminal (ms @ ns) \<longleftrightarrow> on_terminal ms \<and> on_terminal ns"
  by (simp add: on_terminal_def)

text \<open>A switch, in terms of the abstract marker.\<close>

definition switch_marks :: "'a marks_scheme \<Rightarrow> int \<Rightarrow> int \<Rightarrow> (stream \<times> string) list" where
  "switch_marks s fd fd' = (if fd = fd' then [] else end_mark s fd @ start_mark s fd')"

lemma before_write_marks:
  assumes "fd = 1 \<or> fd = 2" "buf \<noteq> 0" "len \<noteq> -1"
  shows "before_write fd buf len s = (write_marks (switch_marks s (cur_fd s) fd) s)\<lparr>cur_fd := fd\<rparr>"
proof (cases "fd = cur_fd s")
  case True
  then show ?thesis
    using assms by (simp add: before_write_def switch_marks_def write_marks_def)
next
  case False
  then show ?thesis
    using assms
    by (simp add: before_write_def switch_marks_def switch_from_fd_marks switch_to_fd_marks
        write_marks_append marks_of_frame)
qed

lemma mark_close_marks: "mark_close s = write_marks (end_mark s (cur_fd s)) s"
  by (simp add: mark_close_def switch_from_fd_marks)

text \<open>The text of the marks on a shared terminal, from the interface of the terminal.\<close>

abbreviation mark_text :: "(stream \<times> string) list \<Rightarrow> string" where
  "mark_text ms \<equiv> concat (map snd ms)"

lemma write_marks_tty:
  "on_terminal ms \<Longrightarrow> tty_flow (write_marks ms s) = tty_flow s @ mark_text ms"
  unfolding write_marks_def on_terminal_def by (rule screen.directs_screen)

lemma write_marks_quiet: "quiet s \<Longrightarrow> quiet (write_marks ms s)"
  unfolding write_marks_def by (rule screen.directs_calm)

section \<open>The specification of a marked session\<close>

text \<open>
  A session is a list of writes, each a descriptor and the bytes written. \<open>st fd\<close> and
  \<open>en fd\<close> are the texts of the start and end marks. \<open>marked\<close> writes the marks at each
  switch, as \<open>before_write\<close> does; \<open>bracketed\<close> is what a user expects to see: every maximal
  run of writes to one descriptor between that descriptor's marks.
\<close>

fun marked :: "(int \<Rightarrow> string) \<Rightarrow> (int \<Rightarrow> string) \<Rightarrow> int \<Rightarrow> (int \<times> string) list \<Rightarrow> string" where
  "marked st en cur [] = []"
| "marked st en cur ((fd, d) # ws) =
     (if fd = cur then [] else en cur @ st fd) @ d @ marked st en fd ws"

fun last_fd :: "int \<Rightarrow> (int \<times> string) list \<Rightarrow> int" where
  "last_fd cur [] = cur"
| "last_fd cur ((fd, d) # ws) = last_fd fd ws"

fun runs :: "(int \<times> string) list \<Rightarrow> (int \<times> string) list" where
  "runs [] = []"
| "runs ((fd, d) # ws) =
     (case runs ws of
        [] \<Rightarrow> [(fd, d)]
      | (fd', d') # gs \<Rightarrow> if fd = fd' then (fd, d @ d') # gs else (fd, d) # (fd', d') # gs)"

definition bracketed :: "(int \<Rightarrow> string) \<Rightarrow> (int \<Rightarrow> string) \<Rightarrow> (int \<times> string) list \<Rightarrow> string" where
  "bracketed st en gs = concat (map (\<lambda>(fd, d). st fd @ d @ en fd) gs)"

lemma marked_append:
  "marked st en cur (ws @ vs) = marked st en cur ws @ marked st en (last_fd cur ws) vs"
  by (induction ws arbitrary: cur) auto

lemma last_fd_append: "last_fd cur (ws @ vs) = last_fd (last_fd cur ws) vs"
  by (induction ws arbitrary: cur) auto

lemma marked_runs:
  "marked st en cur ws @ en (last_fd cur ws) =
     (case runs ws of
        [] \<Rightarrow> en cur
      | (fd, d) # gs \<Rightarrow>
          if fd = cur then d @ en cur @ bracketed st en gs
          else en cur @ bracketed st en ((fd, d) # gs))"
proof (induction ws arbitrary: cur)
  case Nil
  then show ?case by simp
next
  case (Cons w ws)
  obtain fd d where w: "w = (fd, d)" by fastforce
  from Cons.IH [of fd] show ?case
    by (cases "runs ws") (auto simp: w bracketed_def split: if_splits)
qed

text \<open>
  What a session with marks at its switches and one end mark at its close shows is the
  bracketed output: each maximal run of writes to one descriptor between the marks of that
  descriptor, in the order written.
\<close>

lemma marked_bracketed:
  assumes "en cur = []" and "cur \<notin> set (map fst ws)"
  shows "marked st en cur ws @ en (last_fd cur ws) = bracketed st en (runs ws)"
proof -
  have "fst ` set (runs ws) \<subseteq> fst ` set ws" for ws
  proof (induction ws)
    case Nil
    then show ?case by simp
  next
    case (Cons w ws)
    then show ?case
      by (cases w; cases "runs ws") (fastforce split: if_splits intro: rev_image_eqI)+
  qed
  then have "cur \<notin> fst ` set (runs ws)"
    using assms(2) by auto
  then show ?thesis
    unfolding marked_runs using assms(1) by (auto simp: bracketed_def split: list.splits)
qed

section \<open>Properties\<close>

definition store_marks ::
  "char \<Rightarrow> string \<Rightarrow> string \<Rightarrow> 'a marks_scheme \<Rightarrow> 'a marks_scheme" where
  "store_marks c m_start m_end s =
     (if c = CHR ''1'' then s\<lparr>start1 := Some m_start, end1 := Some m_end\<rparr>
      else s\<lparr>start2 := Some m_start, end2 := Some m_end\<rparr>)"

lemma scan_sep_found: "sep \<notin> set st \<Longrightarrow> scan_sep sep (st @ sep # rest) = length st"
  by (induction st) auto

lemma scan_sep_missing: "sep \<notin> set st \<Longrightarrow> scan_sep sep st = length st"
  by (induction st) auto

lemma scan_end_length [simp]: "scan_end s = length s"
  by (induction s) auto

lemma parse_mark_specs_run:
  assumes "c = CHR ''1'' \<or> c = CHR ''2''" "\<not> debug s"
    and "scan_marks sep rest = ((p, n), (q, m))"
    and "strndup p n = Inr (Some m_start)" "strndup q m = Inr (Some m_end)"
  shows "parse_mark_specs (c # sep # rest) s = (Inr True, store_marks c m_start m_end s)"
proof -
  have "schar (CHR ''1'') = 49" "schar (CHR ''2'') = 50" by (simp_all add: schar_def)
  with assms show ?thesis
    by (auto simp: parse_mark_specs_def prog_simps store_marks_def)
qed

text \<open>
  C19: the meaning of a mark specification, on each of its forms: without a leading
  descriptor 1 or 2 it is refused and nothing changes; a descriptor alone is accepted and
  changes nothing; otherwise the character after the descriptor is the separator, the start
  mark is what stands before its next occurrence and the end mark all that follows it, up
  to the end of the argument, or nothing if there is no second separator.
\<close>

theorem parse_mark_specs_meaning:
  assumes "\<not> debug s" and "sep \<noteq> CHR 0x00" and "sep \<notin> set st"
    and "c = CHR ''1'' \<or> c = CHR ''2''" and "a \<noteq> CHR ''1''" and "a \<noteq> CHR ''2''"
  shows "parse_mark_specs [] s = (Inr False, s) \<and>
    parse_mark_specs (a # t) s = (Inr False, s) \<and>
    parse_mark_specs [c] s = (Inr True, s) \<and>
    parse_mark_specs (c # sep # st @ sep # en) s = (Inr True, store_marks c st en s) \<and>
    parse_mark_specs (c # sep # st) s = (Inr True, store_marks c st [] s)"
proof -
  have "parse_mark_specs (c # sep # st @ sep # en) s = (Inr True, store_marks c st en s)"
    using assms
    by (intro parse_mark_specs_run [of c s sep _ "if st = [] then None else Some (st @ sep # en)"
          "length st" "if en = [] then None else Some en" "length en"])
      (auto simp: scan_marks_def scan_sep_found strndup_def)
  moreover have "parse_mark_specs (c # sep # st) s = (Inr True, store_marks c st [] s)"
    using assms
    by (intro parse_mark_specs_run [of c s sep _ "if st = [] then None else Some st"
          "length st" None 0])
      (auto simp: scan_marks_def scan_sep_missing strndup_def)
  ultimately show ?thesis
    using assms(4-6) by (auto simp: parse_mark_specs_def prog_simps)
qed

theorem parse_mark_specs_meaning_witness:
  "parse_mark_specs ''2/<b>/</b>'' init_marks =
     (Inr True, store_marks CHR ''2'' ''<b>'' ''</b>'' init_marks)"
  using parse_mark_specs_meaning [of init_marks "CHR ''/''" "''<b>''" "CHR ''2''"
      "CHR ''x''" "[]" "''</b>''"] by (simp add: init_states)

text \<open>
  The example in the documentation of \<open>--mark\<close>, \<open>1:[[:]]:\<close>, does not give the end
  mark \<open>]]\<close>: the separator at the end of the argument becomes part of the end mark.
\<close>

lemma parse_mark_specs_example:
  "parse_mark_specs ''1:[[:]]:'' (s\<lparr>debug := False\<rparr>) =
     (Inr True, s\<lparr>debug := False, start1 := Some ''[['', end1 := Some '']]:''\<rparr>)"
proof -
  have "scan_marks CHR '':'' ''[[:]]:'' = ((Some ''[[:]]:'', 2), (Some '']]:'', 3))"
    by (simp add: scan_marks_def)
  from parse_mark_specs_run [OF _ _ this, of "CHR ''1''" "s\<lparr>debug := False\<rparr>" "''[[''" "'']]:''"]
  show ?thesis by (simp add: strndup_def store_marks_def)
qed

text \<open>
  C20: \<open>before_write\<close> on descriptor 1 or 2 shows, on a terminal that is both stdout and
  stderr, the end mark of the descriptor written to last and the start mark of the new one,
  after all that was output before; nothing if the descriptor is the same. It then records
  the new descriptor and leaves nothing waiting for \<open>stderr\<close>.
\<close>

theorem before_write_switch:
  assumes "fd = 1 \<or> fd = 2" and "buf \<noteq> 0" and "len \<noteq> -1" and "quiet s"
  shows "tty_flow (before_write fd buf len s) = tty_flow s @ mark_text (switch_marks s (cur_fd s) fd) \<and>
    cur_fd (before_write fd buf len s) = fd \<and> quiet (before_write fd buf len s)"
proof -
  have "on_terminal (switch_marks s (cur_fd s) fd)"
    by (simp add: switch_marks_def) (simp add: on_terminal_def)
  then show ?thesis
    unfolding before_write_marks [OF assms(1-3)]
    using assms(4) by (simp add: write_marks_tty write_marks_quiet)
qed

theorem before_write_switch_witness:
  "tty_flow (before_write 2 16 5 init_marks) =
     tty_flow init_marks @ mark_text (switch_marks init_marks (cur_fd init_marks) 2) \<and>
   cur_fd (before_write 2 16 5 init_marks) = 2 \<and> quiet (before_write 2 16 5 init_marks)"
  by (rule before_write_switch) (simp_all add: init_states quiet_def)

lemma concat_replicate_snoc: "concat (replicate n x) @ x = x @ concat (replicate n x)"
  by (induction n) simp_all

text \<open>
  \<open>mark_close\<close> does not record that it closed: called \<open>n\<close> times it shows the end mark
  of the current descriptor \<open>n\<close> times.
\<close>

lemma mark_close_repeats:
  "tty_flow ((mark_close ^^ n) s) =
     tty_flow s @ concat (replicate n (mark_text (end_mark s (cur_fd s)))) \<and>
   cur_fd ((mark_close ^^ n) s) = cur_fd s"
proof (induction n)
  case 0
  then show ?case by simp
next
  case (Suc n)
  have "end_mark ((mark_close ^^ n) s) fd = end_mark s fd" for fd
    by (induction n) (simp_all add: mark_close_marks marks_of_frame)
  with Suc show ?case
    by (simp add: mark_close_marks [of "(mark_close ^^ n) s"] write_marks_tty frame_simps
        concat_replicate_snoc)
qed

end
