(* ===== verification/Errno_Names.thy ===== *)
theory Errno_Names
  imports Globals
begin

text \<open>
  Names and messages of \<open>errno\<close> values: \<open>src/libcscript/decode-esym.c\<close>,
  \<open>decode-emsg.c\<close>, \<open>explain-err.c\<close>, \<open>fshow-errno.c\<close> and \<open>guard-malloc.c\<close>.

  The lemmas show that the symbolic name identifies the number, in which buffers the name
  of an unknown number is complete, and that \<open>guard_malloc\<close> never returns null.
\<close>

section \<open>decode-esym.c\<close>

definition errno_table :: "string option list" where
  "errno_table = [
    None,
    Some ''EPERM'', Some ''ENOENT'', Some ''ESRCH'', Some ''EINTR'', Some ''EIO'',
    Some ''ENXIO'', Some ''E2BIG'', Some ''ENOEXEC'', Some ''EBADF'', Some ''ECHILD'',
    Some ''EAGAIN'', Some ''ENOMEM'', Some ''EACCES'', Some ''EFAULT'', Some ''ENOTBLK'',
    Some ''EBUSY'', Some ''EEXIST'', Some ''EXDEV'', Some ''ENODEV'', Some ''ENOTDIR'',
    Some ''EISDIR'', Some ''EINVAL'', Some ''ENFILE'', Some ''EMFILE'', Some ''ENOTTY'',
    Some ''ETXTBSY'', Some ''EFBIG'', Some ''ENOSPC'', Some ''ESPIPE'', Some ''EROFS'',
    Some ''EMLINK'', Some ''EPIPE'', Some ''EDOM'', Some ''ERANGE'', Some ''EDEADLK'',
    Some ''ENAMETOOLONG'', Some ''ENOLCK'', Some ''ENOSYS'', Some ''ENOTEMPTY'', Some ''ELOOP'',
    None,
    Some ''ENOMSG'', Some ''EIDRM'', Some ''ECHRNG'', Some ''EL2NSYNC'', Some ''EL3HLT'',
    Some ''EL3RST'', Some ''ELNRNG'', Some ''EUNATCH'', Some ''ENOCSI'', Some ''EL2HLT'',
    Some ''EBADE'', Some ''EBADR'', Some ''EXFULL'', Some ''ENOANO'', Some ''EBADRQC'',
    Some ''EBADSLT'',
    None,
    Some ''EBFONT'', Some ''ENOSTR'', Some ''ENODATA'', Some ''ETIME'', Some ''ENOSR'',
    Some ''ENONET'', Some ''ENOPKG'', Some ''EREMOTE'', Some ''ENOLINK'', Some ''EADV'',
    Some ''ESRMNT'', Some ''ECOMM'', Some ''EPROTO'', Some ''EMULTIHOP'', Some ''EDOTDOT'',
    Some ''EBADMSG'', Some ''EOVERFLOW'', Some ''ENOTUNIQ'', Some ''EBADFD'', Some ''EREMCHG'',
    Some ''ELIBACC'', Some ''ELIBBAD'', Some ''ELIBSCN'', Some ''ELIBMAX'', Some ''ELIBEXEC'',
    Some ''EILSEQ'', Some ''ERESTART'', Some ''ESTRPIPE'', Some ''EUSERS'', Some ''ENOTSOCK'',
    Some ''EDESTADDRREQ'', Some ''EMSGSIZE'', Some ''EPROTOTYPE'', Some ''ENOPROTOOPT'',
    Some ''EPROTONOSUPPORT'', Some ''ESOCKTNOSUPPORT'', Some ''EOPNOTSUPP'',
    Some ''EPFNOSUPPORT'', Some ''EAFNOSUPPORT'', Some ''EADDRINUSE'', Some ''EADDRNOTAVAIL'',
    Some ''ENETDOWN'', Some ''ENETUNREACH'', Some ''ENETRESET'', Some ''ECONNABORTED'',
    Some ''ECONNRESET'', Some ''ENOBUFS'', Some ''EISCONN'', Some ''ENOTCONN'',
    Some ''ESHUTDOWN'', Some ''ETOOMANYREFS'', Some ''ETIMEDOUT'', Some ''ECONNREFUSED'',
    Some ''EHOSTDOWN'', Some ''EHOSTUNREACH'', Some ''EALREADY'', Some ''EINPROGRESS'',
    Some ''ESTALE'', Some ''EUCLEAN'', Some ''ENOTNAM'', Some ''ENAVAIL'', Some ''EISNAM'',
    Some ''EREMOTEIO'', Some ''EDQUOT'', Some ''ENOMEDIUM'', Some ''EMEDIUMTYPE'',
    Some ''ECANCELED'', Some ''ENOKEY'', Some ''EKEYEXPIRED'', Some ''EKEYREVOKED'',
    Some ''EKEYREJECTED'', Some ''EOWNERDEAD'', Some ''ENOTRECOVERABLE'', Some ''ERFKILL'',
    Some ''EHWPOISON'']"

text \<open>\<open>sizeof (errno_table) / sizeof (char *)\<close>\<close>

definition errno_table_size :: nat where
  "errno_table_size = length errno_table"

text \<open>The string returned; \<open>bufsz\<close> is the capacity of \<open>buf\<close>.\<close>

definition decode_esym_r :: "nat \<Rightarrow> int \<Rightarrow> string" where
  "decode_esym_r bufsz err =
     (let sym = (if 0 \<le> err \<and> nat err < errno_table_size then errno_table ! nat err else None)
      in case sym of None \<Rightarrow> snprintf bufsz (CHR ''#'' # fmt_d err) | Some t \<Rightarrow> t)"

section \<open>decode-emsg.c, explain-err.c, fshow-errno.c\<close>

definition decode_emsg_r :: "libc \<Rightarrow> int \<Rightarrow> string" where
  "decode_emsg_r lc err = strerror lc err"

text \<open>\<open>esymbuf\<close> has 32 bytes here and 12 bytes in \<open>fshow_errno\<close>.\<close>

definition fexplain_err :: "stream option \<Rightarrow> int \<Rightarrow> ('a glob_scheme, unit) prog" where
  "fexplain_err f err = withs (\<lambda>s.
     let emsgp = decode_emsg_r (clib s) err; esymp = decode_esym_r 32 err in
     fputs (''    '' @ fmt_d err @ ''='' @ esymp @ ''='' @ [CHR 0x27] @ emsgp @ [CHR 0x27] @ nl) f)"

definition explain_err :: "int \<Rightarrow> ('a glob_scheme, unit) prog" where
  "explain_err err = fexplain_err (Some Stdout) err"

definition eexplain_err :: "int \<Rightarrow> ('a glob_scheme, unit) prog" where
  "eexplain_err err = withs (\<lambda>s. fexplain_err (errprint_fh s) err)"

definition fshow_errno :: "stream option \<Rightarrow> string \<Rightarrow> int \<Rightarrow> ('a glob_scheme, unit) prog" where
  "fshow_errno f msg err = withs (\<lambda>s.
     let esymp = decode_esym_r 12 err; estr = strerror (clib s) err in
     fputs (msg @ fmt_d err @ ''='' @ esymp @ ''='' @ estr @ ''.'' @ nl) f)"

section \<open>guard-malloc.c\<close>

text \<open>
  \<open>mem\<close> is what \<open>malloc\<close> returns (\<open>None\<close> for null), \<open>err\<close> the \<open>errno\<close> it leaves.
\<close>

definition guard_malloc :: "'m option \<Rightarrow> int \<Rightarrow> u64 \<Rightarrow> ('a glob_scheme, 'm) prog" where
  "guard_malloc mem err sz =
     (case mem of
        Some m \<Rightarrow> ret m
      | None \<Rightarrow>
          bindp (eprintf (''malloc('' @ fmt_alt_x sz @ '') failed'' @ nl)) (\<lambda>_.
          bindp (eexplain_err err) (\<lambda>_. exitp 8)))"

section \<open>Properties\<close>

lemma errno_table_size_eq: "errno_table_size = 134"
  by (simp add: errno_table_size_def errno_table_def)

definition esym :: "int \<Rightarrow> string option" where
  "esym err = (if 0 \<le> err \<and> nat err < errno_table_size then errno_table ! nat err else None)"

lemma decode_esym_r_alt:
  "decode_esym_r bufsz err =
     (case esym err of None \<Rightarrow> snprintf bufsz (CHR ''#'' # fmt_d err) | Some t \<Rightarrow> t)"
  by (simp add: decode_esym_r_def esym_def Let_def)

lemma errno_names_distinct: "distinct (filter (\<lambda>x. x \<noteq> None) errno_table)"
  unfolding errno_table_def by code_simp

lemma errno_names_start: "list_all (\<lambda>x. case x of None \<Rightarrow> True | Some t \<Rightarrow> hd t = CHR ''E'' \<and> t \<noteq> []) errno_table"
  unfolding errno_table_def by code_simp

lemma distinct_filter_nth:
  "distinct (filter P xs) \<Longrightarrow> i < length xs \<Longrightarrow> j < length xs \<Longrightarrow> xs ! i = xs ! j \<Longrightarrow>
   P (xs ! i) \<Longrightarrow> i = j"
proof (induction xs arbitrary: i j)
  case Nil
  then show ?case by simp
next
  case (Cons x xs)
  have "x \<notin> set xs" if "P x" using Cons.prems(1) that by auto
  with Cons show ?case
    by (cases i; cases j) (auto split: if_splits)
qed

lemma esym_inject:
  assumes "esym i = Some t" "esym j = Some t"
  shows "i = j"
proof -
  have "nat i = nat j"
    using assms distinct_filter_nth [OF errno_names_distinct, of "nat i" "nat j"]
    by (auto simp: esym_def errno_table_size_def split: if_splits)
  with assms show ?thesis by (auto simp: esym_def split: if_splits)
qed

lemma esym_start: "esym err = Some t \<Longrightarrow> t \<noteq> [] \<and> hd t = CHR ''E''"
  using errno_names_start
  by (fastforce simp: esym_def errno_table_size_def list_all_length split: if_splits option.splits)

text \<open>A 32-bit number and its sign fit in 11 characters.\<close>

lemma fmt_d_int_length: "-(2 ^ 31) \<le> i \<Longrightarrow> i < 2 ^ 31 \<Longrightarrow> length (fmt_d i) \<le> 11"
  by (simp add: fmt_d_length)

text \<open>
  C39: in a buffer of at least 13 bytes the string that \<open>decode_esym_r\<close> gives identifies
  the number: two different \<open>int\<close>s never get the same string, known or not.
\<close>

theorem decode_esym_r_inject:
  assumes "13 \<le> bufsz"
    and "-(2 ^ 31) \<le> i" "i < 2 ^ 31" "-(2 ^ 31) \<le> j" "j < 2 ^ 31"
  shows "decode_esym_r bufsz i = decode_esym_r bufsz j \<longleftrightarrow> i = j"
proof -
  have full: "snprintf bufsz (CHR ''#'' # fmt_d k) = CHR ''#'' # fmt_d k"
    if "-(2 ^ 31) \<le> k" "k < 2 ^ 31" for k
    using assms(1) fmt_d_int_length [OF that] by (simp add: snprintf_def)
  show ?thesis
    using assms full esym_start [of i] esym_start [of j] esym_inject [of i _ j]
    by (cases "esym i"; cases "esym j")
      (auto simp: decode_esym_r_alt fmt_d_inject simp del: hd_Cons_tl)
qed

theorem decode_esym_r_inject_witness:
  "decode_esym_r 32 (-1) \<noteq> decode_esym_r 32 5 \<and> decode_esym_r 13 41 \<noteq> decode_esym_r 13 58"
  using decode_esym_r_inject [of 32 "-1" 5] decode_esym_r_inject [of 13 41 58] by simp

text \<open>
  In the 12-byte buffer of \<open>fshow_errno\<close> the text of an unknown number is cut short
  exactly for numbers of eleven characters, those below \<open>-999999999\<close>.
\<close>

lemma decode_esym_r_12:
  assumes "-(2 ^ 31) \<le> err" "err < 2 ^ 31" "esym err = None"
  shows "decode_esym_r 12 err = CHR ''#'' # fmt_d err \<longleftrightarrow> -1000000000 < err"
proof -
  have "length (dec n) \<le> 9 \<longleftrightarrow> n < 1000000000" "length (dec n) \<le> 10 \<longleftrightarrow> n < 10000000000" for n
    using length_num_le [of 10 9 n] length_num_le [of 10 10 n] by simp_all
  then have "length (fmt_d err) \<le> 10 \<longleftrightarrow> -1000000000 < err"
    using assms(2) by (auto simp: fmt_d_def nat_less_iff)
  moreover have "take 10 t = t \<longleftrightarrow> length t \<le> 10" for t :: string
    by (metis linorder_not_le order_less_irrefl length_take min.absorb2 nat_le_linear take_all_iff)
  ultimately show ?thesis
    using assms(3) by (simp add: decode_esym_r_alt snprintf_def)
qed

text \<open>
  \<open>guard_malloc\<close> returns the memory if \<open>malloc\<close> gave any, and otherwise ends the
  process with status 8 (or faults on a null \<open>errprint_fh\<close>): it never returns null.
\<close>

lemma guard_malloc_total:
  "fst (guard_malloc mem err sz s) =
     (case mem of Some m \<Rightarrow> Inr m
      | None \<Rightarrow> (if errprint_fh s = None then Inl (Fault Null_stream) else Inl (Exit 8)))"
  by (auto simp: guard_malloc_def eprintf_def eexplain_err_def fexplain_err_def prog_simps
      exitp_def frame_simps fputs_def split: option.splits)

end
