(* ===== verification/Pmem.thy ===== *)
theory Pmem
  imports Stdio
begin

text \<open>
  Reading the memory of the traced process one word at a time with
  \<open>ptrace(PTRACE_PEEKDATA)\<close>: \<open>src/liberrmark/pmem-copy.c\<close> and \<open>pmem-fwrite.c\<close>.

  The memory is a partial map from addresses to bytes. A peek delivers the eight bytes at an
  address, aligned or not, as a little-endian word, and fails if one of them cannot be read,
  with one of the errors of ptrace(2): \<open>EIO\<close> or \<open>EFAULT\<close> for an address that is not
  mapped, \<open>ESRCH\<close> if the child is gone. Addresses and lengths are 64-bit words.

  The two routines are the same walk with different destinations. The walk is verified once,
  in the locale \<open>word_transfer\<close>, against the reference \<open>fetch\<close>, and both routines are
  interpretations of it. The theorems say what is transferred when the memory can be read,
  and when it cannot.
\<close>

unbundle bit_operations_syntax

datatype peek_error = Peek_EIO | Peek_EFAULT | Peek_ESRCH

record memory =
  byte_at :: "u64 \<Rightarrow> char option"
  peek_error :: peek_error

primrec read_mem :: "memory \<Rightarrow> u64 \<Rightarrow> nat \<Rightarrow> string option" where
  "read_mem mem a 0 = Some []"
| "read_mem mem a (Suc n) =
     (case byte_at mem a of None \<Rightarrow> None | Some c \<Rightarrow> map_option (Cons c) (read_mem mem (a + 1) n))"

section \<open>Words and bytes\<close>

text \<open>The union of a \<open>long\<close> and an array of eight \<open>char\<close>s, little-endian.\<close>

primrec nat_of_bytes :: "string \<Rightarrow> nat" where
  "nat_of_bytes [] = 0"
| "nat_of_bytes (c # cs) = of_char c + 256 * nat_of_bytes cs"

primrec bytes_of_nat :: "nat \<Rightarrow> nat \<Rightarrow> string" where
  "bytes_of_nat 0 n = []"
| "bytes_of_nat (Suc k) n = char_of n # bytes_of_nat k (n div 256)"

definition word_of_bytes :: "string \<Rightarrow> u64" where
  "word_of_bytes cs = of_nat (nat_of_bytes cs)"

definition bytes_of_word :: "u64 \<Rightarrow> string" where
  "bytes_of_word w = bytes_of_nat 8 (unat w)"

lemma nat_of_bytes_bound: "nat_of_bytes cs < 256 ^ length cs"
proof (induction cs)
  case Nil
  then show ?case by simp
next
  case (Cons c cs)
  have "(of_char c :: nat) \<le> 255"
    using nat_of_char_less_256 [of c] by linarith
  moreover have "nat_of_bytes cs + 1 \<le> 256 ^ length cs"
    using Cons by linarith
  ultimately show ?case by simp
qed

lemma bytes_of_nat_of_bytes: "bytes_of_nat (length cs) (nat_of_bytes cs) = cs"
proof (induction cs)
  case Nil
  then show ?case by simp
next
  case (Cons c cs)
  have "char_of (of_char c + 256 * nat_of_bytes cs) = char_of ((of_char c + 256 * nat_of_bytes cs) mod 256)"
    by (simp only: char_of_mod_256)
  also have "\<dots> = c" by simp
  finally show ?case using Cons by simp
qed

theorem word_bytes_round_trip: "length cs = 8 \<Longrightarrow> bytes_of_word (word_of_bytes cs) = cs"
proof -
  assume len: "length cs = 8"
  then have "nat_of_bytes cs < 2 ^ 64"
    using nat_of_bytes_bound [of cs] by simp
  then have "unat (word_of_bytes cs) = nat_of_bytes cs"
    by (simp add: word_of_bytes_def unat_of_nat)
  with len bytes_of_nat_of_bytes [of cs] show ?thesis
    by (simp add: bytes_of_word_def)
qed

section \<open>Peeking\<close>

definition EIO :: int where
  "EIO = 5"

primrec errno_of :: "peek_error \<Rightarrow> int" where
  "errno_of Peek_EIO = EIO"
| "errno_of Peek_EFAULT = 14"
| "errno_of Peek_ESRCH = 3"

text \<open>The result of \<open>ptrace(PTRACE_PEEKDATA, ...)\<close> and the \<open>errno\<close> after it.\<close>

definition peekdata :: "memory \<Rightarrow> u64 \<Rightarrow> u64 \<times> int" where
  "peekdata mem a =
     (case read_mem mem a 8 of Some cs \<Rightarrow> (word_of_bytes cs, 0) | None \<Rightarrow> (-1, errno_of (peek_error mem)))"

text \<open>
  The step that both routines make three times: peek, and on an error return the number of
  bytes read so far, if there are any and the error is \<open>EIO\<close>, or else -1.
\<close>

definition peek_word :: "memory \<Rightarrow> u64 \<Rightarrow> u64 \<Rightarrow> int + string" where
  "peek_word mem raddr bytes_read =
     (case peekdata mem raddr of (iword, errno) \<Rightarrow>
        if iword = -1 \<and> errno \<noteq> 0 then
          (if bytes_read \<noteq> 0 \<and> errno = EIO then Inl (to_ssize bytes_read) else Inl (-1))
        else Inr (bytes_of_word iword))"

section \<open>pmem-fwrite.c\<close>

text \<open>A stage ends in \<open>Inl\<close> of a return value or \<open>Inr\<close> of \<open>raddr\<close>, \<open>len\<close>, \<open>bytes_read\<close>.\<close>

type_synonym stage = "int + (u64 \<times> u64 \<times> u64)"

definition fwrite_head ::
  "stream \<Rightarrow> memory \<Rightarrow> u64 \<Rightarrow> u64 \<Rightarrow> 'a io_scheme \<Rightarrow> stage \<times> 'a io_scheme" where
  "fwrite_head f mem raddr len s =
     (let phase = raddr AND 7 in
      if phase \<noteq> 0 then
        (let remsz = 8 - phase; sz = (if len > remsz then remsz else len) in
         case peek_word mem raddr 0 of
           Inl r \<Rightarrow> (Inl r, s)
         | Inr bytes \<Rightarrow>
             (Inr (raddr + sz, len - sz, sz), fwrite f (take (unat sz) bytes) s))
      else (Inr (raddr, len, 0), s))"

function fwrite_words ::
  "stream \<Rightarrow> memory \<Rightarrow> u64 \<Rightarrow> u64 \<Rightarrow> u64 \<Rightarrow> 'a io_scheme \<Rightarrow> stage \<times> 'a io_scheme" where
  "fwrite_words f mem raddr len bytes_read s =
     (if 8 \<le> len then
        (case peek_word mem raddr bytes_read of
           Inl r \<Rightarrow> (Inl r, s)
         | Inr bytes \<Rightarrow>
             fwrite_words f mem (raddr + 8) (len - 8) (bytes_read + 8) (fwrite f bytes s))
      else (Inr (raddr, len, bytes_read), s))"
  by pat_completeness auto
termination
  by (relation "measure (\<lambda>(f, mem, raddr, len, n, s). unat len)")
    (auto simp: unat_sub word_le_nat_alt)

declare fwrite_words.simps [simp del]

definition pmem_fwrite ::
  "stream \<Rightarrow> memory \<Rightarrow> u64 \<Rightarrow> u64 \<Rightarrow> 'a io_scheme \<Rightarrow> int \<times> 'a io_scheme" where
  "pmem_fwrite f mem raddr len s =
     (case fwrite_head f mem raddr len s of
        (Inl r, s) \<Rightarrow> (r, s)
      | (Inr (raddr, len, bytes_read), s) \<Rightarrow>
         (case fwrite_words f mem raddr len bytes_read s of
            (Inl r, s) \<Rightarrow> (r, s)
          | (Inr (raddr, len, bytes_read), s) \<Rightarrow>
             (if len > 0 then
                (case peek_word mem raddr bytes_read of
                   Inl r \<Rightarrow> (r, s)
                 | Inr bytes \<Rightarrow>
                     (to_ssize (bytes_read + len), fflush f (fwrite f (take (unat len) bytes) s)))
              else (to_ssize bytes_read, fflush f s))))"

section \<open>pmem-copy.c\<close>

text \<open>
  The destination: the cells of the caller's buffer, the place \<open>buf\<close> points to, and whether
  a \<open>memcpy\<close> has gone past the end.
\<close>

record cbuf =
  cells :: string
  cpos :: nat
  overrun :: bool

definition memcpy :: "string \<Rightarrow> cbuf \<Rightarrow> cbuf" where
  "memcpy d b =
     b\<lparr>cells := take (cpos b) (cells b) @ d @ drop (cpos b + length d) (cells b),
       cpos := cpos b + length d,
       overrun := overrun b \<or> length (cells b) < cpos b + length d\<rparr>"

definition copy_head :: "memory \<Rightarrow> u64 \<Rightarrow> u64 \<Rightarrow> cbuf \<Rightarrow> stage \<times> cbuf" where
  "copy_head mem raddr len b =
     (let phase = raddr AND 7 in
      if phase \<noteq> 0 then
        (let remsz = 8 - phase; sz = (if len > remsz then remsz else len) in
         case peek_word mem raddr 0 of
           Inl r \<Rightarrow> (Inl r, b)
         | Inr bytes \<Rightarrow>
             (Inr (raddr + sz, len - sz, sz), memcpy (take (unat sz) bytes) b))
      else (Inr (raddr, len, 0), b))"

function copy_words :: "memory \<Rightarrow> u64 \<Rightarrow> u64 \<Rightarrow> u64 \<Rightarrow> cbuf \<Rightarrow> stage \<times> cbuf" where
  "copy_words mem raddr len bytes_read b =
     (if 8 \<le> len then
        (case peek_word mem raddr bytes_read of
           Inl r \<Rightarrow> (Inl r, b)
         | Inr bytes \<Rightarrow> copy_words mem (raddr + 8) (len - 8) (bytes_read + 8) (memcpy bytes b))
      else (Inr (raddr, len, bytes_read), b))"
  by pat_completeness auto
termination
  by (relation "measure (\<lambda>(mem, raddr, len, n, b). unat len)")
    (auto simp: unat_sub word_le_nat_alt)

declare copy_words.simps [simp del]

definition copy_all :: "memory \<Rightarrow> u64 \<Rightarrow> u64 \<Rightarrow> cbuf \<Rightarrow> int \<times> cbuf" where
  "copy_all mem raddr len b =
     (case copy_head mem raddr len b of
        (Inl r, b) \<Rightarrow> (r, b)
      | (Inr (raddr, len, bytes_read), b) \<Rightarrow>
         (case copy_words mem raddr len bytes_read b of
            (Inl r, b) \<Rightarrow> (r, b)
          | (Inr (raddr, len, bytes_read), b) \<Rightarrow>
             (if len > 0 then
                (case peek_word mem raddr bytes_read of
                   Inl r \<Rightarrow> (r, b)
                 | Inr bytes \<Rightarrow>
                     (to_ssize (bytes_read + len), memcpy (take (unat len) bytes) b))
              else (to_ssize bytes_read, b))))"

text \<open>The call, on a buffer with the contents \<open>buf\<close>.\<close>

definition pmem_copy :: "string \<Rightarrow> memory \<Rightarrow> u64 \<Rightarrow> u64 \<Rightarrow> int \<times> cbuf" where
  "pmem_copy buf mem raddr len =
     copy_all mem raddr len \<lparr>cells = buf, cpos = 0, overrun = False\<rparr>"

section \<open>The reference\<close>

lemma length_read_mem: "read_mem mem a n = Some d \<Longrightarrow> length d = n"
  by (induction n arbitrary: a d) (auto split: option.splits)

text \<open>The bytes obtained from the whole words of a region, up to the first failure.\<close>

function whole_words :: "memory \<Rightarrow> u64 \<Rightarrow> nat \<Rightarrow> string \<times> bool" where
  "whole_words mem a n =
     (if 8 \<le> n then
        (case read_mem mem a 8 of
           None \<Rightarrow> ([], False)
         | Some bs \<Rightarrow> (case whole_words mem (a + 8) (n - 8) of (d, ok) \<Rightarrow> (bs @ d, ok)))
      else ([], True))"
  by pat_completeness auto
termination
  by (relation "measure (\<lambda>(mem, a, n). n)") auto

declare whole_words.simps [simp del]

text \<open>
  The bytes obtained from \<open>n\<close> bytes at \<open>a\<close>, each word that holds some of them being read
  in full, and whether all were obtained. \<open>fetch_rest\<close> is what follows the first \<open>k\<close> bytes.
\<close>

definition fetch_rest :: "memory \<Rightarrow> u64 \<Rightarrow> nat \<Rightarrow> string \<Rightarrow> nat \<Rightarrow> string \<times> bool" where
  "fetch_rest mem a n d0 k =
     (case whole_words mem (a + of_nat k) (n - k) of (d1, ok) \<Rightarrow>
        if \<not> ok then (d0 @ d1, False)
        else if (n - k) mod 8 = 0 then (d0 @ d1, True)
        else
          (case read_mem mem (a + of_nat (k + length d1)) 8 of
             None \<Rightarrow> (d0 @ d1, False)
           | Some bs \<Rightarrow> (d0 @ d1 @ take ((n - k) mod 8) bs, True)))"

definition fetch :: "memory \<Rightarrow> u64 \<Rightarrow> nat \<Rightarrow> string \<times> bool" where
  "fetch mem a n =
     (let phase = unat (a AND 7); sz = min n (8 - phase) in
      if phase = 0 then fetch_rest mem a n [] 0
      else
        (case read_mem mem a 8 of
           None \<Rightarrow> ([], False)
         | Some bs \<Rightarrow> fetch_rest mem a n (take sz bs) sz))"

text \<open>What is returned after \<open>k\<close> bytes if the next word cannot be read.\<close>

definition fail_value :: "memory \<Rightarrow> nat \<Rightarrow> int" where
  "fail_value mem k =
     (if k = 0 \<or> peek_error mem \<noteq> Peek_EIO then -1 else to_ssize (of_nat k))"

lemma peek_word_read:
  "peek_word mem a n =
     (case read_mem mem a 8 of
        None \<Rightarrow> Inl (if n = 0 \<or> peek_error mem \<noteq> Peek_EIO then -1 else to_ssize n)
      | Some cs \<Rightarrow> Inr cs)"
  by (cases "peek_error mem")
    (auto simp: peek_word_def peekdata_def EIO_def word_bytes_round_trip
      dest: length_read_mem split: option.splits)

lemma unat_u64_less: "unat (w :: u64) < 2 ^ 64"
  using unsigned_less [of w] by simp

lemma unat_of_nat_u64: "k < 2 ^ 64 \<Longrightarrow> unat (of_nat k :: u64) = k"
  by (simp add: unat_of_nat)

lemma of_nat_u64_eq_0: "k < 2 ^ 64 \<Longrightarrow> (of_nat k :: u64) = 0 \<longleftrightarrow> k = 0"
proof -
  assume "k < 2 ^ 64"
  then have "unat (of_nat k :: u64) = k" by (rule unat_of_nat_u64)
  then show ?thesis by (cases "k = 0") (auto simp del: unat_of_nat)
qed

lemma whole_words_length:
  "length (fst (whole_words mem a n)) \<le> n \<and>
   (snd (whole_words mem a n) \<longrightarrow> length (fst (whole_words mem a n)) = 8 * (n div 8))"
proof (induction mem a n rule: whole_words.induct)
  case (1 mem a n)
  show ?case
  proof (cases "8 \<le> n")
    case True
    then have "n div 8 = Suc ((n - 8) div 8)" by (simp add: le_div_geq)
    with 1 True show ?thesis
      by (auto simp: whole_words.simps [of mem a n] length_read_mem split: option.splits prod.splits)
  next
    case False
    then show ?thesis by (simp add: whole_words.simps [of mem a n])
  qed
qed

section \<open>The walk, for any destination\<close>

text \<open>
  A destination appends the bytes it is given, as long as it has room for them.
\<close>

locale word_sink =
  fixes emit :: "string \<Rightarrow> 's \<Rightarrow> 's"
    and got :: "'s \<Rightarrow> string"
    and room :: "nat \<Rightarrow> 's \<Rightarrow> bool"
  assumes emit_got: "room (length d + n) s \<Longrightarrow> got (emit d s) = got s @ d"
    and emit_room: "room (length d + n) s \<Longrightarrow> room n (emit d s)"

text \<open>The stages of the walk and the routine that runs them, by their equations.\<close>

locale word_transfer = word_sink +
  fixes finish :: "'s \<Rightarrow> 's"
    and head_of :: "memory \<Rightarrow> u64 \<Rightarrow> u64 \<Rightarrow> 's \<Rightarrow> stage \<times> 's"
    and words_of :: "memory \<Rightarrow> u64 \<Rightarrow> u64 \<Rightarrow> u64 \<Rightarrow> 's \<Rightarrow> stage \<times> 's"
    and walk :: "memory \<Rightarrow> u64 \<Rightarrow> u64 \<Rightarrow> 's \<Rightarrow> int \<times> 's"
  assumes finish_got: "got (finish s) = got s"
    and finish_room: "room n s \<Longrightarrow> room n (finish s)"
    and head_eq: "head_of mem raddr len s =
      (let phase = raddr AND 7 in
       if phase \<noteq> 0 then
         (let remsz = 8 - phase; sz = (if len > remsz then remsz else len) in
          case peek_word mem raddr 0 of
            Inl r \<Rightarrow> (Inl r, s)
          | Inr bytes \<Rightarrow> (Inr (raddr + sz, len - sz, sz), emit (take (unat sz) bytes) s))
       else (Inr (raddr, len, 0), s))"
    and words_eq: "words_of mem raddr len bytes_read s =
      (if 8 \<le> len then
         (case peek_word mem raddr bytes_read of
            Inl r \<Rightarrow> (Inl r, s)
          | Inr bytes \<Rightarrow> words_of mem (raddr + 8) (len - 8) (bytes_read + 8) (emit bytes s))
       else (Inr (raddr, len, bytes_read), s))"
    and walk_eq: "walk mem raddr len s =
      (case head_of mem raddr len s of
         (Inl r, s) \<Rightarrow> (r, s)
       | (Inr (raddr, len, bytes_read), s) \<Rightarrow>
          (case words_of mem raddr len bytes_read s of
             (Inl r, s) \<Rightarrow> (r, s)
           | (Inr (raddr, len, bytes_read), s) \<Rightarrow>
              (if len > 0 then
                 (case peek_word mem raddr bytes_read of
                    Inl r \<Rightarrow> (r, s)
                  | Inr bytes \<Rightarrow>
                      (to_ssize (bytes_read + len), finish (emit (take (unat len) bytes) s)))
               else (to_ssize bytes_read, finish s))))"
begin

lemma words_fetch:
  "whole_words mem a (unat len) = (d, ok) \<Longrightarrow> k + unat len < 2 ^ 64 \<Longrightarrow> room (unat len) s \<Longrightarrow>
   \<exists>s'. words_of mem a len (of_nat k) s =
     ((if ok then Inr (a + of_nat (length d), of_nat (unat len mod 8), of_nat (k + length d))
       else Inl (fail_value mem (k + length d))), s') \<and>
     got s' = got s @ d \<and> room (unat len - length d) s'"
proof (induction "unat len" arbitrary: a len k s d rule: less_induct)
  case less
  show ?case
  proof (cases "8 \<le> len")
    case False
    then have "unat len < 8" by (simp add: word_le_nat_alt)
    with False less.prems show ?thesis
      by (auto simp: words_eq [of mem a len] whole_words.simps [of mem a "unat len"])
  next
    case True
    then have n: "8 \<le> unat len" by (simp add: word_le_nat_alt)
    have sub: "unat (len - 8) = unat len - 8"
      using True by (simp add: unat_sub)
    show ?thesis
    proof (cases "read_mem mem a 8")
      case None
      have "(of_nat k :: u64) = 0 \<longleftrightarrow> k = 0"
        using less.prems by (intro of_nat_u64_eq_0) simp
      with None True n less.prems show ?thesis
        by (auto simp: words_eq [of mem a len] whole_words.simps [of mem a "unat len"]
            peek_word_read fail_value_def)
    next
      case (Some bs)
      then have bs: "length bs = 8" by (rule length_read_mem)
      from Some n less.prems(1) obtain e
        where e: "whole_words mem (a + 8) (unat (len - 8)) = (e, ok)" "d = bs @ e"
        by (auto simp: whole_words.simps [of mem a "unat len"] sub split: prod.splits)
      have room: "room (length bs + unat (len - 8)) s"
        using less.prems(3) bs n sub by simp
      have "\<exists>s'. words_of mem (a + 8) (len - 8) (of_nat (k + 8)) (emit bs s) =
          ((if ok then Inr (a + 8 + of_nat (length e), of_nat (unat (len - 8) mod 8),
              of_nat (k + 8 + length e))
            else Inl (fail_value mem (k + 8 + length e))), s') \<and>
          got s' = got (emit bs s) @ e \<and> room (unat (len - 8) - length e) s'"
        using less.prems(2) n sub emit_room [OF room]
        by (intro less.hyps [OF _ e(1)]) simp_all
      moreover have "words_of mem a len (of_nat k) s =
          words_of mem (a + 8) (len - 8) (of_nat (k + 8)) (emit bs s)"
        using True Some by (simp add: words_eq [of mem a len] peek_word_read add.commute)
      moreover have "unat (len - 8) mod 8 = unat len mod 8"
        using n sub by (simp add: le_mod_geq)
      ultimately show ?thesis
        using bs emit_got [OF room] by (cases ok) (simp_all add: e(2) sub ac_simps)
    qed
  qed
qed

text \<open>The last stage: the \<open>r\<close> bytes after the \<open>m\<close> that have been delivered.\<close>

lemma walk_tail:
  assumes head: "head_of mem raddr len s = (Inr (a, n, b), s0)"
    and words: "words_of mem a n b s0 = (Inr (raddr + of_nat m, of_nat r, of_nat m), s1)"
    and m: "m + r = unat len" "r < 8" and room: "room r s1"
  shows "\<exists>s'. walk mem raddr len s =
      ((case (if r = 0 then Some [] else read_mem mem (raddr + of_nat m) 8) of
          None \<Rightarrow> fail_value mem m | Some bs \<Rightarrow> to_ssize len), s') \<and>
    (case (if r = 0 then Some [] else read_mem mem (raddr + of_nat m) 8) of
       None \<Rightarrow> s' = s1 | Some bs \<Rightarrow> got s' = got s1 @ take r bs \<and> room 0 s')"
proof -
  have r: "unat (of_nat r :: u64) = r" using m(2) by (intro unat_of_nat_u64) simp
  have sum: "of_nat m + of_nat r = len" using m(1) by (simp flip: of_nat_add)
  have "m < 2 ^ 64" using m(1) unat_u64_less [of len] by linarith
  then have zero: "(of_nat m :: u64) = 0 \<longleftrightarrow> m = 0" by (rule of_nat_u64_eq_0)
  show ?thesis
  proof (cases "r = 0")
    case True
    then show ?thesis
      using head words sum room by (simp add: walk_eq [of mem raddr len] finish_got finish_room)
  next
    case False
    then have pos: "(0 :: u64) < of_nat r"
      using of_nat_u64_eq_0 [of r] m(2) by (simp add: word_gt_0)
    show ?thesis
    proof (cases "read_mem mem (raddr + of_nat m) 8")
      case None
      with False head words pos zero show ?thesis
        by (simp add: walk_eq [of mem raddr len] peek_word_read fail_value_def)
    next
      case (Some bs)
      have "length (take r bs) = r" using length_read_mem [OF Some] m(2) by simp
      with room have "room (length (take r bs) + 0) s1" by simp
      then have "got (emit (take r bs) s1) = got s1 @ take r bs"
        and "room 0 (finish (emit (take r bs) s1))"
        by (rule emit_got, intro finish_room emit_room)
      with Some False head words pos sum r show ?thesis
        by (simp add: walk_eq [of mem raddr len] peek_word_read finish_got)
    qed
  qed
qed

text \<open>The stages after the head, once it has delivered \<open>k\<close> bytes.\<close>

lemma walk_rest:
  assumes head: "head_of mem raddr len s = (Inr (raddr + of_nat k, len - of_nat k, of_nat k), s0)"
    and k: "k \<le> unat len" and got: "got s0 = got s @ d0" "length d0 = k"
    and room: "room (unat len - k) s0"
    and fetch: "fetch_rest mem raddr (unat len) d0 k = (d, ok)"
  shows "\<exists>s'. walk mem raddr len s =
      ((if ok then to_ssize len else fail_value mem (length d)), s') \<and>
    got s' = got s @ d \<and> room (unat len - length d) s'"
proof -
  let ?n = "unat len" and ?r = "(unat len - k) mod 8"
  note fetch = fetch [unfolded fetch_rest_def]
  have n: "?n < 2 ^ 64" by (rule unat_u64_less)
  have len: "unat (len - of_nat k) = ?n - k"
    using k n by (simp add: unat_sub word_le_nat_alt unat_of_nat)
  obtain d1 ok1 where W: "whole_words mem (raddr + of_nat k) (unat (len - of_nat k)) = (d1, ok1)"
    by fastforce
  have d1: "length d1 \<le> ?n - k" "ok1 \<Longrightarrow> length d1 = 8 * ((?n - k) div 8)"
    using whole_words_length [of mem "raddr + of_nat k" "?n - k"] W len by auto
  have "k + unat (len - of_nat k) < 2 ^ 64" "room (unat (len - of_nat k)) s0"
    using k n len room by simp_all
  from words_fetch [OF W this] obtain s1 where s1:
    "words_of mem (raddr + of_nat k) (len - of_nat k) (of_nat k) s0 =
      ((if ok1 then Inr (raddr + of_nat (k + length d1), of_nat ?r, of_nat (k + length d1))
        else Inl (fail_value mem (k + length d1))), s1)"
    "got s1 = got s0 @ d1" "room (?n - k - length d1) s1"
    by (auto simp: len add.assoc)
  show ?thesis
  proof (cases ok1)
    case False
    then show ?thesis
      using head s1 fetch W len got by (auto simp: walk_eq [of mem raddr len])
  next
    case True
    have total: "k + length d1 + ?r = ?n" using d1(2) [OF True] k by simp
    then have "?n - k - length d1 = ?r" by simp
    with s1(3) have "room ?r s1" by metis
    from walk_tail [OF head _ total _ this] s1(1) True obtain s' where
      "walk mem raddr len s = ((case (if ?r = 0 then Some [] else read_mem mem (raddr + of_nat (k + length d1)) 8) of
          None \<Rightarrow> fail_value mem (k + length d1) | Some bs \<Rightarrow> to_ssize len), s')"
      "case (if ?r = 0 then Some [] else read_mem mem (raddr + of_nat (k + length d1)) 8) of
         None \<Rightarrow> s' = s1 | Some bs \<Rightarrow> got s' = got s1 @ take ?r bs \<and> room 0 s'"
      by auto
    moreover have "d = d0 @ d1 @ take ?r bs \<Longrightarrow> ?r = 0 \<or> length bs = 8 \<Longrightarrow> ?n - length d = 0" for bs
      using total got(2) by auto
    ultimately show ?thesis
      using True fetch W len got s1(2,3)
      by (auto simp: length_read_mem split: option.splits if_splits)
  qed
qed

text \<open>The whole walk delivers what the reference fetches.\<close>

theorem walk_fetch:
  assumes "fetch mem raddr (unat len) = (d, ok)" and "room (unat len) s"
  shows "\<exists>s'. walk mem raddr len s =
      ((if ok then to_ssize len else fail_value mem (length d)), s') \<and>
    got s' = got s @ d \<and> room (unat len - length d) s'"
proof -
  let ?n = "unat len" and ?p = "unat (raddr AND 7)"
  have n: "?n < 2 ^ 64" by (rule unat_u64_less)
  have p: "?p < 8"
    using word_and_le1 [of raddr 7] by (simp add: word_le_nat_alt)
  show ?thesis
  proof (cases "?p = 0")
    case True
    then have "raddr AND 7 = 0" by (simp add: unat_eq_zero)
    then show ?thesis
      using assms True
      by (intro walk_rest [of mem raddr len s 0 s "[]"]) (simp_all add: head_eq fetch_def)
  next
    case False
    then have phase: "raddr AND 7 \<noteq> 0" by (auto simp: unat_eq_zero)
    let ?sz = "min ?n (8 - ?p)"
    have rem: "unat (8 - (raddr AND 7)) = 8 - ?p"
      using p by (simp add: unat_sub word_le_nat_alt)
    have sz: "(if len > 8 - (raddr AND 7) then 8 - (raddr AND 7) else len) = of_nat ?sz"
      using rem by (auto simp: word_less_nat_alt min_def simp flip: rem)
    have usz: "unat (of_nat ?sz :: u64) = ?sz"
      using n by (intro unat_of_nat_u64) simp
    show ?thesis
    proof (cases "read_mem mem raddr 8")
      case None
      with assms False phase show ?thesis
        by (auto simp: walk_eq [of mem raddr len] head_eq fetch_def peek_word_read fail_value_def)
    next
      case (Some bs)
      have len_bs: "length (take ?sz bs) = ?sz"
        using length_read_mem [OF Some] by simp
      have room: "room (length (take ?sz bs) + (?n - ?sz)) s"
        using assms(2) len_bs by simp
      show ?thesis
      proof (rule walk_rest [of mem raddr len s ?sz "emit (take ?sz bs) s" "take ?sz bs"])
        show "head_of mem raddr len s =
            (Inr (raddr + of_nat ?sz, len - of_nat ?sz, of_nat ?sz), emit (take ?sz bs) s)"
          using phase Some unfolding head_eq Let_def sz usz by (simp add: peek_word_read)
        show "got (emit (take ?sz bs) s) = got s @ take ?sz bs"
          using room by (rule emit_got)
        show "room (?n - ?sz) (emit (take ?sz bs) s)"
          using room by (rule emit_room)
      qed (use assms(1) False Some len_bs in \<open>simp_all add: fetch_def Let_def\<close>)
    qed
  qed
qed

end

section \<open>Both routines are that walk\<close>

text \<open>Output to one stream leaves the rest of the state alone.\<close>

definition same_but :: "stream \<Rightarrow> 'a io_scheme \<Rightarrow> 'a io_scheme \<Rightarrow> bool" where
  "same_but st s0 s \<longleftrightarrow>
     drain s = drain s0 \<and> opened s = opened s0 \<and> io.more s = io.more s0 \<and>
     (\<forall>t. t \<noteq> st \<longrightarrow> pending s t = pending s0 t \<and> content t s = content t s0)"

lemma same_but_refl [simp]: "same_but st s s"
  by (simp add: same_but_def)

lemma same_but_put:
  "same_but st s0 s \<Longrightarrow> same_but st s0 (fwrite st d s)"
  "same_but st s0 s \<Longrightarrow> same_but st s0 (fput st d s)"
  "same_but st s0 s \<Longrightarrow> same_but st s0 (fflush st s)"
  by (auto simp: same_but_def fwrite_def io_defs content_def)

interpretation fw: word_transfer "fwrite st" "flow st" "\<lambda>n. same_but st s0" "fflush st"
    "fwrite_head st" "fwrite_words st" "pmem_fwrite st" for st s0
  by unfold_locales
    (simp_all add: fwrite_laws same_but_put fwrite_head_def pmem_fwrite_def
      fwrite_words.simps [symmetric])

text \<open>The same for what a terminal shows.\<close>

lemma quiet_put:
  "quiet s \<Longrightarrow> quiet (fwrite Stdout d s)" "quiet s \<Longrightarrow> quiet (fflush st s)"
  by (simp_all add: fwrite_laws) (simp add: quiet_def)

interpretation fwt: word_transfer "fwrite Stdout" tty_flow "\<lambda>n s. quiet s \<and> same_but Stdout s0 s"
    "fflush Stdout" "fwrite_head Stdout" "fwrite_words Stdout" "pmem_fwrite Stdout" for s0
  by unfold_locales
    (auto simp add: fwrite_laws same_but_put quiet_put tty_flow_fflush fwrite_head_def
      pmem_fwrite_def fwrite_words.simps [symmetric])

text \<open>
  Room in a buffer whose original contents are \<open>buf\<close>: no overrun, \<open>n\<close> cells left, and the
  cells not yet reached as they were.
\<close>

definition copied :: "cbuf \<Rightarrow> string" where
  "copied b = take (cpos b) (cells b)"

definition buf_room :: "string \<Rightarrow> nat \<Rightarrow> cbuf \<Rightarrow> bool" where
  "buf_room buf n b \<longleftrightarrow>
     \<not> overrun b \<and> cpos b + n \<le> length buf \<and> length (cells b) = length buf \<and>
     drop (cpos b) (cells b) = drop (cpos b) buf"

lemma memcpy_room: "buf_room buf (length d + n) b \<Longrightarrow> buf_room buf n (memcpy d b)"
proof -
  assume r: "buf_room buf (length d + n) b"
  then have "drop (cpos b + length d) (cells b) = drop (cpos b + length d) buf"
    unfolding buf_room_def by (metis add.commute drop_drop)
  with r show ?thesis by (auto simp: buf_room_def memcpy_def)
qed

lemma memcpy_copied: "buf_room buf (length d + n) b \<Longrightarrow> copied (memcpy d b) = copied b @ d"
  by (auto simp: copied_def buf_room_def memcpy_def)

interpretation cp: word_sink memcpy copied "buf_room buf" for buf
  by unfold_locales (fact memcpy_copied, fact memcpy_room)

interpretation cp: word_transfer memcpy copied "buf_room buf" "\<lambda>b. b" copy_head copy_words copy_all
  for buf
  by unfold_locales
    (simp_all add: copy_head_def copy_all_def copy_words.simps [symmetric])

section \<open>Readable memory\<close>

lemma read_mem_add:
  "read_mem mem a (m + n) =
     (case read_mem mem a m of None \<Rightarrow> None
      | Some x \<Rightarrow> map_option ((@) x) (read_mem mem (a + of_nat m) n))"
proof (induction m arbitrary: a)
  case 0
  show ?case by (cases "read_mem mem a n") simp_all
next
  case (Suc m)
  have "a + 1 + of_nat m = a + of_nat (Suc m)" by simp
  with Suc.IH [of "a + 1"] show ?case
    by (cases "byte_at mem a"; cases "read_mem mem (a + 1) m";
        cases "read_mem mem (a + of_nat (Suc m)) n") simp_all
qed

lemma read_mem_split:
  "read_mem mem a (m + n) = Some d \<Longrightarrow>
   read_mem mem a m = Some (take m d) \<and> read_mem mem (a + of_nat m) n = Some (drop m d)"
  by (auto simp: read_mem_add dest: length_read_mem split: option.splits)

lemma whole_words_readable:
  "read_mem mem a n = Some d \<Longrightarrow> whole_words mem a n = (take (8 * (n div 8)) d, True)"
proof (induction mem a n arbitrary: d rule: whole_words.induct)
  case (1 mem a n)
  show ?case
  proof (cases "8 \<le> n")
    case True
    then have "n = 8 + (n - 8)" by simp
    with "1.prems" have r: "read_mem mem a 8 = Some (take 8 d)"
      "read_mem mem (a + 8) (n - 8) = Some (drop 8 d)"
      using read_mem_split [of mem a 8 "n - 8" d] by simp_all
    have "8 * (n div 8) = 8 + 8 * ((n - 8) div 8)"
      using True by (simp add: le_div_geq)
    with "1.IH" [OF True r] r True show ?thesis
      by (simp add: whole_words.simps [of mem a n] take_add)
  next
    case False
    then show ?thesis by (simp add: whole_words.simps [of mem a n])
  qed
qed

lemma unat_and_7: "unat (a AND 7 :: u64) = unat a mod 8"
proof -
  have "a AND 7 = take_bit 3 a"
    by (simp add: take_bit_eq_mask mask_eq_exp_minus_1)
  moreover have "unat (take_bit 3 a) = take_bit 3 (unat a)"
    by (rule unsigned_take_bit_eq)
  moreover have "take_bit 3 (unat a) = unat a mod 8"
    by (simp add: take_bit_eq_mod)
  ultimately show ?thesis by (simp only:)
qed

lemma and_7_eq_0: "a AND 7 = (0 :: u64) \<longleftrightarrow> unat a mod 8 = 0"
  by (metis unat_and_7 unat_eq_zero)

lemma aligned_add: "(unat (a + of_nat k :: u64)) mod 8 = (unat a + k) mod 8"
proof -
  have "unat (a + of_nat k) = (unat a + k) mod 2 ^ 64"
    by (simp add: unat_word_ariths unat_of_nat mod_add_right_eq)
  moreover have "(unat a + k) mod 2 ^ 64 mod 8 = (unat a + k) mod 8"
    by (rule mod_mod_cancel) simp
  ultimately show ?thesis by simp
qed

text \<open>
  Memory is mapped in aligned words (in pages, really): where the first byte of an aligned
  word can be read, all eight can.
\<close>

definition word_mapped :: "memory \<Rightarrow> bool" where
  "word_mapped mem \<longleftrightarrow> (\<forall>a. a AND 7 = 0 \<longrightarrow> byte_at mem a \<noteq> None \<longrightarrow> read_mem mem a 8 \<noteq> None)"

lemma fetch_rest_mapped:
  assumes "word_mapped mem" "read_mem mem a n = Some d" "k \<le> n"
    and aligned: "k = n \<or> (unat a + k) mod 8 = 0"
  shows "fetch_rest mem a n (take k d) k = (d, True)"
proof -
  have d: "length d = n" using assms(2) by (rule length_read_mem)
  let ?L = "8 * ((n - k) div 8)" and ?r = "(n - k) mod 8"
  have n: "n = k + (n - k)" "n = k + ?L + ?r" "?L + ?r = n - k" using assms(3) by simp_all
  then have "read_mem mem (a + of_nat k) (n - k) = Some (drop k d)"
    using read_mem_split [of mem a k "n - k" d] assms(2) by simp
  then have W: "whole_words mem (a + of_nat k) (n - k) = (take ?L (drop k d), True)"
    by (rule whole_words_readable)
  have L: "length (take ?L (drop k d)) = ?L"
    using d n(3) by simp
  have join: "take k d @ take ?L (drop k d) @ drop (k + ?L) d = d"
    by (metis add.commute append_take_drop_id drop_drop)
  show ?thesis
  proof (cases "?r = 0")
    case True
    then have "drop (k + ?L) d = []" using d n(2) by simp
    with True W join show ?thesis by (simp add: fetch_rest_def)
  next
    case False
    have tail: "read_mem mem (a + of_nat (k + ?L)) ?r = Some (drop (k + ?L) d)"
      using read_mem_split [of mem a "k + ?L" ?r d] assms(2) n(2) by simp
    from False obtain q where "?r = Suc q" by (cases ?r) auto
    with tail have "byte_at mem (a + of_nat (k + ?L)) \<noteq> None"
      by (auto split: option.splits)
    moreover have "(a + of_nat (k + ?L)) AND 7 = 0"
      using aligned False unfolding and_7_eq_0 aligned_add
      by (metis add.assoc diff_self_eq_0 mod_0 mod_mult_self2)
    ultimately obtain bs where bs: "read_mem mem (a + of_nat (k + ?L)) 8 = Some bs"
      using assms(1) by (auto simp: word_mapped_def)
    then have "read_mem mem (a + of_nat (k + ?L)) ?r = Some (take ?r bs)"
      using read_mem_split [of mem "a + of_nat (k + ?L)" ?r "8 - ?r" bs] by simp
    with tail have "take ?r bs = drop (k + ?L) d" by simp
    with False W L bs join show ?thesis by (simp add: fetch_rest_def)
  qed
qed

lemma fetch_mapped:
  assumes "word_mapped mem" "read_mem mem a n = Some d"
    and "a AND 7 = 0 \<or> read_mem mem a 8 \<noteq> None"
  shows "fetch mem a n = (d, True)"
proof (cases "unat (a AND 7) = 0")
  case True
  then have "unat a mod 8 = 0" by (simp add: unat_and_7)
  with fetch_rest_mapped [OF assms(1,2), of 0] True show ?thesis
    by (simp add: fetch_def)
next
  case False
  let ?p = "unat (a AND 7)"
  let ?sz = "min n (8 - ?p)"
  from False assms(3) obtain bs where bs: "read_mem mem a 8 = Some bs"
    by (auto simp: unat_eq_zero)
  have "read_mem mem a ?sz = Some (take ?sz bs)"
    using read_mem_split [of mem a ?sz "8 - ?sz" bs] bs by simp
  moreover have "read_mem mem a ?sz = Some (take ?sz d)"
    using read_mem_split [of mem a ?sz "n - ?sz" d] assms(2) by simp
  ultimately have "take ?sz bs = take ?sz d" by simp
  moreover have "fetch_rest mem a n (take ?sz d) ?sz = (d, True)"
  proof (rule fetch_rest_mapped [OF assms(1,2)])
    have "?p = unat a mod 8" by (rule unat_and_7)
    then have "(unat a + (8 - ?p)) mod 8 = 0" by presburger
    then show "?sz = n \<or> (unat a + ?sz) mod 8 = 0" by (auto simp: min_def)
  qed simp
  ultimately show ?thesis
    using False bs by (simp add: fetch_def)
qed

section \<open>Properties\<close>

text \<open>
  A region that starts off a word boundary is lost as a whole if the eight bytes at its
  start are not all mapped, even when all of the region is: nothing is output and -1
  returned.
\<close>

lemma pmem_fwrite_page_end:
  assumes "raddr AND 7 \<noteq> 0" and "read_mem mem raddr 8 = None"
  shows "pmem_fwrite st mem raddr len s = (-1, s)"
  using assms by (simp add: pmem_fwrite_def fwrite_head_def peek_word_read)

text \<open>
  C13: \<open>pmem_fwrite\<close> of a region that can be read, in a memory that is mapped in aligned words.
  If the region starts on a word boundary, or else the eight bytes at its start can be read
  too, exactly its bytes are appended to the stream and their number is returned. If not,
  nothing is output and -1 returned, although the region can be read.
\<close>

theorem pmem_fwrite_correct:
  assumes "word_mapped mem" and "read_mem mem raddr (unat len) = Some d"
  shows "if raddr AND 7 = 0 \<or> read_mem mem raddr 8 \<noteq> None then
      \<exists>s'. pmem_fwrite st mem raddr len s = (to_ssize len, s') \<and>
        flow st s' = flow st s @ d \<and> same_but st s s'
    else pmem_fwrite st mem raddr len s = (-1, s)"
proof (cases "raddr AND 7 = 0 \<or> read_mem mem raddr 8 \<noteq> None")
  case True
  with fw.walk_fetch [OF fetch_mapped [OF assms True], where s = s] show ?thesis by auto
next
  case False
  with pmem_fwrite_page_end show ?thesis by auto
qed

text \<open>A memory with one mapped page, whose bytes count up.\<close>

definition low_page :: memory where
  "low_page = \<lparr>byte_at = (\<lambda>a. if a < 4096 then Some (char_of (unat a)) else None), peek_error = Peek_EIO\<rparr>"

lemma read_mem_defined: "(\<forall>i < n. byte_at mem (a + of_nat i) \<noteq> None) \<Longrightarrow> read_mem mem a n \<noteq> None"
proof (induction n arbitrary: a)
  case 0
  then show ?case by simp
next
  case (Suc n)
  have "byte_at mem (a + 1 + of_nat i) \<noteq> None" if "i < n" for i
    using Suc.prems that by (auto dest!: spec [of _ "Suc i"] simp: add.assoc)
  with Suc.IH [of "a + 1"] Suc.prems show ?case
    by (auto dest: spec [of _ 0] split: option.split)
qed

lemma word_mapped_low_page: "word_mapped low_page"
  unfolding word_mapped_def
proof (intro allI impI)
  fix a :: u64
  assume a: "a AND 7 = 0" "byte_at low_page a \<noteq> None"
  then have "unat a mod 8 = 0" "unat a < 4096"
    by (simp_all add: and_7_eq_0 low_page_def word_less_nat_alt split: if_splits)
  then have "unat a \<le> 4088" by presburger
  then have "unat (a + of_nat i) < 4096" if "i < 8" for i
    using that by (simp add: unat_word_ariths unat_of_nat)
  then show "read_mem low_page a 8 \<noteq> None"
    by (intro read_mem_defined) (simp add: low_page_def word_less_nat_alt)
qed

lemma low_page_ABC: "read_mem low_page 65 (unat (3 :: u64)) = Some ''ABC''"
proof -
  have "unat (3 :: u64) = Suc (Suc (Suc 0))" by simp
  moreover have "char_of (65 :: nat) = CHR ''A''" "char_of (66 :: nat) = CHR ''B''"
    "char_of (67 :: nat) = CHR ''C''" by code_simp+
  ultimately show ?thesis by (simp only: read_mem.simps) (simp add: low_page_def)
qed

theorem pmem_fwrite_correct_witness:
  "\<exists>s'. pmem_fwrite Stdout low_page 65 3 init_io = (to_ssize 3, s') \<and>
    flow Stdout s' = flow Stdout init_io @ ''ABC'' \<and> same_but Stdout init_io s'"
proof -
  have "(65 :: u64) AND 7 = 0 \<or> read_mem low_page 65 8 \<noteq> None"
    using read_mem_defined [of 8 low_page 65]
    by (auto simp: low_page_def word_less_nat_alt unat_word_ariths unat_of_nat)
  from pmem_fwrite_correct [OF word_mapped_low_page low_page_ABC, unfolded if_P [OF this]]
  show ?thesis .
qed

text \<open>The cells of the buffer: the bytes fetched, and after them what it held before.\<close>

lemma pmem_copy_contents:
  assumes "fetch mem raddr (unat len) = (d, ok)" "unat len \<le> length buf"
  shows "\<exists>b. pmem_copy buf mem raddr len = ((if ok then to_ssize len else fail_value mem (length d)), b) \<and>
    \<not> overrun b \<and> cells b = d @ drop (length d) buf \<and> length d \<le> length buf"
proof -
  let ?b0 = "\<lparr>cells = buf, cpos = 0, overrun = False\<rparr>"
  have "buf_room buf (unat len) ?b0"
    using assms(2) by (simp add: buf_room_def)
  from cp.walk_fetch [OF assms(1) this] obtain b where b:
    "copy_all mem raddr len ?b0 = ((if ok then to_ssize len else fail_value mem (length d)), b)"
    "copied b = d" "buf_room buf (unat len - length d) b"
    by (auto simp: copied_def)
  have "cells b = copied b @ drop (cpos b) (cells b)"
    by (simp add: copied_def)
  moreover have pos: "cpos b = length d"
    using b(2,3) by (auto simp: copied_def buf_room_def)
  ultimately have "cells b = d @ drop (length d) buf"
    using b(2,3) by (simp add: buf_room_def)
  then show ?thesis
    using b(1,3) pos by (auto simp: pmem_copy_def buf_room_def)
qed

text \<open>
  C14: \<open>pmem_copy\<close> and \<open>pmem_fwrite\<close> transfer the same bytes and return the same value,
  whatever the memory, also when it can be read in part or not at all. A buffer that holds
  \<open>len\<close> bytes is not overrun, and its cells after the bytes transferred keep their contents.
\<close>

theorem pmem_copy_same_as_fwrite:
  assumes "unat len \<le> length buf"
  shows "\<exists>d s' b. pmem_fwrite st mem raddr len s = (fst (pmem_copy buf mem raddr len), s') \<and>
    flow st s' = flow st s @ d \<and> pmem_copy buf mem raddr len = (fst (pmem_copy buf mem raddr len), b) \<and>
    \<not> overrun b \<and> cells b = d @ drop (length d) buf"
proof -
  obtain d ok where F: "fetch mem raddr (unat len) = (d, ok)" by fastforce
  from pmem_copy_contents [OF F assms] show ?thesis
    using fw.walk_fetch [OF F, where s = s and st = st and ?s0.0 = s] by auto
qed

theorem pmem_copy_same_as_fwrite_witness:
  "\<exists>d s' b. pmem_fwrite Stdout low_page 65 3 init_io = (fst (pmem_copy ''....'' low_page 65 3), s') \<and>
    flow Stdout s' = flow Stdout init_io @ d \<and>
    pmem_copy ''....'' low_page 65 3 = (fst (pmem_copy ''....'' low_page 65 3), b) \<and>
    \<not> overrun b \<and> cells b = d @ drop (length d) ''....''"
  by (rule pmem_copy_same_as_fwrite) simp

text \<open>The last four bytes of the page can be read, and are not output.\<close>

lemma pmem_fwrite_page_end_example:
  "read_mem low_page 4092 4 \<noteq> None \<and> pmem_fwrite Stdout low_page 4092 4 init_io = (-1, init_io)"
proof
  show "read_mem low_page 4092 4 \<noteq> None"
    by (rule read_mem_defined) (auto simp: low_page_def word_less_nat_alt unat_word_ariths unat_of_nat)
  have "byte_at low_page (4092 + of_nat 4) = None" by (simp add: low_page_def)
  then have "read_mem low_page (4092 + of_nat 4) 4 = None"
    by (simp add: numeral_eq_Suc)
  then have "read_mem low_page 4092 8 = None"
    using read_mem_add [of low_page 4092 4 4] by (simp split: option.split)
  then show "pmem_fwrite Stdout low_page 4092 4 init_io = (-1, init_io)"
    by (intro pmem_fwrite_page_end) (simp_all add: and_7_eq_0)
qed

end
