(* ===== verification/Guard_Ptrace.thy ===== *)
theory Guard_Ptrace
  imports Mark_Write Errno_Names Pmem
begin

text \<open>
  The state of the tracer and its checked call of \<open>ptrace(2)\<close>: \<open>struct cmd\<close> of
  \<open>src/inc/errmark.h\<close> and \<open>src/liberrmark/guard-ptrace.c\<close>.

  The record adds to the state of the marks the command being run, the log \<open>requests\<close> of the
  requests made to \<open>ptrace\<close> (memory peeks apart), and the number of seconds slept.
\<close>

text \<open>\<open>struct cmd\<close>; \<open>None\<close> is the null pointer.\<close>

record cmd =
  cargc :: int
  cargv :: "string list"
  cmd_path :: "string option"
  cmd_name :: "string option"
  cverbose :: bool
  cdebug :: bool
  slow :: bool
  trace_fbt :: "stream option"
  nullify :: bool
  copy_fname :: "string option"
  copy_fh :: "stream option"
  mark_state :: int
  child :: int
  child_status :: int
  rc :: int
  child_exited :: bool

text \<open>
  \<open>struct user_regs_struct\<close> of x86_64: the registers the program uses, under the names the
  macros \<open>reg_syscall\<close>, \<open>reg_arg1\<close>, \<open>reg_arg2\<close>, \<open>reg_arg3\<close> and \<open>reg_retn\<close> stand for, and
  all the others.
\<close>

record regs =
  orig_rax :: u64
  rdi :: u64
  rsi :: u64
  rdx :: u64
  rax :: u64
  other_regs :: "u64 list"

text \<open>
  Requests with the part of their \<open>data\<close> that matters: the registers to be stored, and the
  signal the child is resumed with, 0 for none. \<open>addr\<close> is always null and has no effect.
\<close>

datatype request =
    PTRACE_TRACEME
  | PTRACE_GETREGS
  | PTRACE_SETREGS regs
  | PTRACE_SYSCALL int

fun request_code :: "request \<Rightarrow> nat" where
  "request_code PTRACE_TRACEME = 0"
| "request_code PTRACE_GETREGS = 12"
| "request_code (PTRACE_SETREGS r) = 13"
| "request_code (PTRACE_SYSCALL sig) = 24"

record world = marks +
  cmd :: cmd
  requests :: "request list"
  slept :: nat

definition ESRCH :: int where
  "ESRCH = 3"

text \<open>\<open>static cmd_t cmdbuf\<close>, which C sets to zeros.\<close>

definition zero_cmd :: cmd where
  "zero_cmd = \<lparr>cargc = 0, cargv = [], cmd_path = None, cmd_name = None, cverbose = False,
     cdebug = False, slow = False, trace_fbt = None, nullify = False, copy_fname = None,
     copy_fh = None, mark_state = 0, child = 0, child_status = 0, rc = 0, child_exited = False\<rparr>"

definition init_world :: world where
  "init_world = marks.extend init_marks (world.fields zero_cmd [] 0)"

declare zero_cmd_def [init_states] init_world_def [init_states] world.defs [init_states]

section \<open>Updates of the command\<close>

definition upd_cmd :: "(cmd \<Rightarrow> cmd) \<Rightarrow> 'a world_scheme \<Rightarrow> 'a world_scheme" where
  "upd_cmd f s = s\<lparr>cmd := f (cmd s)\<rparr>"

definition log_request :: "request \<Rightarrow> 'a world_scheme \<Rightarrow> 'a world_scheme" where
  "log_request r s = s\<lparr>requests := requests s @ [r]\<rparr>"

text \<open>\<open>if (cmd->trace_fbt) { fprintf(cmd->trace_fbt, t); }\<close>\<close>

definition trace_print :: "string \<Rightarrow> ('a world_scheme, unit) prog" where
  "trace_print t = withs (\<lambda>s.
     case trace_fbt (cmd s) of None \<Rightarrow> ret () | Some f \<Rightarrow> fputs t (Some f))"

text \<open>\<open>if (cmd->mark_state) { mark_close(); }\<close>\<close>

definition close_marks :: "('a world_scheme, unit) prog" where
  "close_marks = withs (\<lambda>s. whenp (mark_state (cmd s) \<noteq> 0) (upd mark_close))"

section \<open>guard-ptrace.c\<close>

text \<open>\<open>err\<close> is the \<open>errno\<close> that the call leaves, 0 if it succeeds.\<close>

definition guard_ptrace :: "request \<Rightarrow> int \<Rightarrow> ('a world_scheme, int) prog" where
  "guard_ptrace request err =
     bindp (seqp [
       trace_print (''> ptrace('' @ dec (request_code request) @ '')'' @ nl),
       upd (log_request request),
       trace_print (''< ptrace'' @ nl),
       whenp (err \<noteq> ESRCH) (upd (upd_cmd (\<lambda>c. c\<lparr>child_exited := True\<rparr>))),
       whenp (err \<noteq> 0 \<and> err \<noteq> ESRCH) (seqp [
         close_marks,
         fshow_errno (Some Stderr) ''ptrace() failed - '' err,
         die Abort])])
     (\<lambda>_. ret (if err \<noteq> 0 then -1 else 0))"

section \<open>Frame facts\<close>

lemma world_io_frame [frame_simps]:
  "cmd (fput st d s) = cmd s" "requests (fput st d s) = requests s" "slept (fput st d s) = slept s"
  "cmd (fflush st s) = cmd s" "requests (fflush st s) = requests s" "slept (fflush st s) = slept s"
  "cmd (sys_write st d s) = cmd s" "requests (sys_write st d s) = requests s"
  "slept (sys_write st d s) = slept s"
  by (simp_all add: io_defs)

lemma write_marks_world [frame_simps]:
  "cmd (write_marks ms s) = cmd s" "requests (write_marks ms s) = requests s"
  "debug (write_marks ms s) = debug s" "slept (write_marks ms s) = slept s"
  "clib (write_marks ms s) = clib s" "errprint_fh (write_marks ms s) = errprint_fh s"
  "opened (write_marks ms s) = opened s" "drain (write_marks ms s) = drain s"
  by (induction ms arbitrary: s) (auto simp: write_marks_def sync_def frame_simps)

lemma upd_cmd_frame [frame_simps]:
  "cmd (upd_cmd f s) = f (cmd s)" "requests (upd_cmd f s) = requests s"
  "cur_fd (upd_cmd f s) = cur_fd s" "debug (upd_cmd f s) = debug s"
  "start1 (upd_cmd f s) = start1 s" "end1 (upd_cmd f s) = end1 s"
  "start2 (upd_cmd f s) = start2 s" "end2 (upd_cmd f s) = end2 s"
  "pending (upd_cmd f s) = pending s" "opened (upd_cmd f s) = opened s"
  "drain (upd_cmd f s) = drain s" "clib (upd_cmd f s) = clib s"
  "errprint_fh (upd_cmd f s) = errprint_fh s"
  by (simp_all add: upd_cmd_def)

lemma log_request_frame [frame_simps]:
  "cmd (log_request r s) = cmd s" "requests (log_request r s) = requests s @ [r]"
  "cur_fd (log_request r s) = cur_fd s" "debug (log_request r s) = debug s"
  "start1 (log_request r s) = start1 s" "end1 (log_request r s) = end1 s"
  "start2 (log_request r s) = start2 s" "end2 (log_request r s) = end2 s"
  "pending (log_request r s) = pending s" "opened (log_request r s) = opened s"
  "drain (log_request r s) = drain s" "clib (log_request r s) = clib s"
  "errprint_fh (log_request r s) = errprint_fh s"
  by (simp_all add: log_request_def)

lemma output_world [simp]:
  "tty_flow (upd_cmd f s) = tty_flow s" "flow st (upd_cmd f s) = flow st s"
  "quiet (upd_cmd f s) = quiet s" "content st (upd_cmd f s) = content st s"
  "tty_flow (log_request r s) = tty_flow s" "flow st (log_request r s) = flow st s"
  "quiet (log_request r s) = quiet s" "content st (log_request r s) = content st s"
  by (simp_all add: upd_cmd_def log_request_def tty_flow_def tty_def flow_def content_def quiet_def)

text \<open>A successful request, with function tracing off.\<close>

lemma guard_ptrace_ok:
  "trace_fbt (cmd s) = None \<Longrightarrow>
   guard_ptrace r 0 s = (Inr 0, upd_cmd (\<lambda>c. c\<lparr>child_exited := True\<rparr>) (log_request r s))"
  by (simp add: guard_ptrace_def trace_print_def prog_simps ESRCH_def frame_simps)

lemma guard_ptrace_esrch:
  "trace_fbt (cmd s) = None \<Longrightarrow> guard_ptrace r ESRCH s = (Inr (-1), log_request r s)"
  by (simp add: guard_ptrace_def trace_print_def prog_simps ESRCH_def frame_simps)

section \<open>The outcome\<close>

text \<open>
  What \<open>guard_ptrace\<close> returns or how it ends, with function tracing off: success and a
  vanished child come back to the caller, as 0 and -1; every other error shows the end mark,
  reports the error and aborts. The flag \<open>child_exited\<close> is set on every outcome except the
  one that says that the child is gone.
\<close>

lemma guard_ptrace_outcome:
  assumes "trace_fbt (cmd s) = None"
  shows "fst (guard_ptrace r err s) =
      (if err = 0 then Inr 0 else if err = ESRCH then Inr (-1) else Inl Abort) \<and>
    child_exited (cmd (snd (guard_ptrace r err s))) =
      (err \<noteq> ESRCH \<or> child_exited (cmd s)) \<and>
    requests (snd (guard_ptrace r err s)) = requests s @ [r]"
proof -
  consider "err = 0" | "err = ESRCH" | "err \<noteq> 0" "err \<noteq> ESRCH" by blast
  then show ?thesis
  proof cases
    case 1
    then show ?thesis
      using assms by (simp add: guard_ptrace_ok frame_simps ESRCH_def)
  next
    case 2
    then show ?thesis
      using assms by (simp add: guard_ptrace_esrch frame_simps) (simp add: ESRCH_def)
  next
    case 3
    then show ?thesis
      using assms
      by (simp add: guard_ptrace_def trace_print_def close_marks_def fshow_errno_def prog_simps
          frame_simps mark_close_marks Let_def)
  qed
qed

lemma guard_ptrace_outcome_example:
  "fst (guard_ptrace (PTRACE_SYSCALL 0) 5 init_world) = Inl Abort \<and>
   fst (guard_ptrace (PTRACE_SYSCALL 0) ESRCH init_world) = Inr (-1) \<and>
   \<not> child_exited (cmd (snd (guard_ptrace (PTRACE_SYSCALL 0) ESRCH init_world)))"
  using guard_ptrace_outcome [of init_world "PTRACE_SYSCALL 0" 5]
    guard_ptrace_outcome [of init_world "PTRACE_SYSCALL 0" ESRCH]
  by (simp add: init_states ESRCH_def)

end
