(* ===== verification/Wait_Status.thy ===== *)
theory Wait_Status
  imports Globals
begin

text \<open>
  The status word of \<open>wait(2)\<close>, as the macros of \<open><sys/wait.h>\<close> take it apart, and its
  explanation: \<open>src/libcscript/decode-signal.c\<close> and \<open>fshow-wait-status.c\<close>.

  The lemmas show that the macros partition the status words, what is printed for each
  class, and that the assertion of \<open>decode_signal_r\<close> cannot fail for the 32-byte buffer it
  is called with.
\<close>

unbundle bit_operations_syntax

section \<open>The macros\<close>

definition WTERMSIG :: "int \<Rightarrow> int" where
  "WTERMSIG status = status AND 0x7f"

definition WEXITSTATUS :: "int \<Rightarrow> int" where
  "WEXITSTATUS status = drop_bit 8 (status AND 0xff00)"

definition WSTOPSIG :: "int \<Rightarrow> int" where
  "WSTOPSIG status = WEXITSTATUS status"

definition WIFEXITED :: "int \<Rightarrow> bool" where
  "WIFEXITED status \<longleftrightarrow> WTERMSIG status = 0"

text \<open>\<open>((signed char) ((status & 0x7f) + 1) >> 1) > 0\<close>\<close>

definition WIFSIGNALED :: "int \<Rightarrow> bool" where
  "WIFSIGNALED status \<longleftrightarrow>
     (let n = (status AND 0x7f) + 1; sc = (if n < 128 then n else n - 256) in drop_bit 1 sc > 0)"

definition WIFSTOPPED :: "int \<Rightarrow> bool" where
  "WIFSTOPPED status \<longleftrightarrow> status AND 0xff = 0x7f"

definition WIFCONTINUED :: "int \<Rightarrow> bool" where
  "WIFCONTINUED status \<longleftrightarrow> status = 0xffff"

definition WCOREDUMP :: "int \<Rightarrow> bool" where
  "WCOREDUMP status \<longleftrightarrow> status AND 0x80 \<noteq> 0"

section \<open>decode-signal.c\<close>

text \<open>glibc's \<open>NSIG\<close>\<close>

definition NSIG :: int where
  "NSIG = 65"

definition decode_signal_r :: "libc \<Rightarrow> nat \<Rightarrow> int \<Rightarrow> halt + string" where
  "decode_signal_r lc sz sig =
     (case (if 0 \<le> sig \<and> sig < NSIG then sys_siglist lc sig else None) of
        Some desc \<Rightarrow> Inr desc
      | None \<Rightarrow>
         (let t = (if sigrtmin lc \<le> sig \<and> sig \<le> sigrtmax lc
                   then ''Real-time signal '' @ fmt_d (sig - sigrtmin lc)
                   else ''Unknown signal '' @ fmt_d sig)
          in if length t < sz - 1 then Inr (snprintf (sz - 1) t) else Inl Abort))"

section \<open>fshow-wait-status.c\<close>

text \<open>\<open>sigbuf\<close> has 32 bytes.\<close>

definition fshow_wait_status ::
  "stream option \<Rightarrow> string option \<Rightarrow> int \<Rightarrow> ('a glob_scheme, unit) prog" where
  "fshow_wait_status f name status = withs (\<lambda>s. seqp [
     fputs (fmt_s name @ '' ...'' @ nl) f,
     (if WIFEXITED status then
        fputs (''  exited, status='' @ fmt_d (WEXITSTATUS status) @ nl) f
      else if WIFSIGNALED status then
        (let sig = WTERMSIG status in
         bindp (lift_res (decode_signal_r (clib s) 32 sig)) (\<lambda>d. seqp [
           fputs (''  killed by signal '' @ fmt_d sig @ '' ('' @ d @ '')'') f,
           whenp (WCOREDUMP status) (fputs '' (core dumped)'' f),
           fputs nl f]))
      else if WIFSTOPPED status then
        (let sig = WSTOPSIG status in
         bindp (lift_res (decode_signal_r (clib s) 32 sig)) (\<lambda>d.
           fputs (''  stopped by signal '' @ fmt_d sig @ '' ('' @ d @ '')'' @ nl) f))
      else if WIFCONTINUED status then
        fputs (''  continued'' @ nl) f
      else
        fputs (''  *** INTERNAL ERROR *** status=x'' @ fmt_02x status @ nl) f)])"

section \<open>The classes of status words\<close>

text \<open>The reference: what a status word means, by arithmetic on the number.\<close>

datatype wait_class =
    Exited int
  | Killed int bool
  | Stopped int
  | Continued
  | Other

definition wait_class_of :: "int \<Rightarrow> wait_class" where
  "wait_class_of status =
     (if status mod 128 = 0 then Exited (status div 256 mod 256)
      else if status mod 128 < 127 then Killed (status mod 128) (odd (status div 128))
      else if status mod 256 = 127 then Stopped (status div 256 mod 256)
      else if status = 0xffff then Continued
      else Other)"

text \<open>
  The text for a signal, of any length: its description in the C library if it has one, else
  its number, counted from the first real-time signal if it is one of those.
\<close>

definition signal_text :: "libc \<Rightarrow> int \<Rightarrow> string" where
  "signal_text lc sig =
     (case (if sig \<in> {0..64} then sys_siglist lc sig else None) of
        Some desc \<Rightarrow> desc
      | None \<Rightarrow>
          if sig \<in> {sigrtmin lc..sigrtmax lc} then ''Real-time signal '' @ fmt_d (sig - sigrtmin lc)
          else ''Unknown signal '' @ fmt_d sig)"

definition describe :: "libc \<Rightarrow> int \<Rightarrow> wait_class \<Rightarrow> string" where
  "describe lc status c =
     (case c of
        Exited n \<Rightarrow> ''  exited, status='' @ fmt_d n @ nl
      | Killed sig core \<Rightarrow>
          ''  killed by signal '' @ fmt_d sig @ '' ('' @ signal_text lc sig @ '')'' @
          (if core then '' (core dumped)'' else []) @ nl
      | Stopped sig \<Rightarrow>
          ''  stopped by signal '' @ fmt_d sig @ '' ('' @ signal_text lc sig @ '')'' @ nl
      | Continued \<Rightarrow> ''  continued'' @ nl
      | Other \<Rightarrow> ''  *** INTERNAL ERROR *** status=x'' @ fmt_02x status @ nl)"

lemma and_masks:
  "status AND 0x7f = status mod 128" "status AND 0xff = status mod (256 :: int)"
  using take_bit_eq_mask [of 7 status] take_bit_eq_mask [of 8 status]
  by (simp_all add: take_bit_eq_mod mask_eq_exp_minus_1)

lemma WTERMSIG_mod: "WTERMSIG status = status mod 128"
  by (simp add: WTERMSIG_def and_masks)

lemma WEXITSTATUS_div: "WEXITSTATUS status = status div 256 mod 256"
proof -
  have "drop_bit 8 (status AND 0xff00) = drop_bit 8 status AND drop_bit 8 (0xff00 :: int)"
    by (simp only: drop_bit_and)
  also have "drop_bit 8 (0xff00 :: int) = 0xff"
    by (simp add: drop_bit_eq_div)
  finally show ?thesis
    by (simp add: WEXITSTATUS_def and_masks drop_bit_eq_div)
qed

lemma WCOREDUMP_div: "WCOREDUMP status \<longleftrightarrow> odd (status div 128)"
proof -
  have "status AND 0x80 = 0 \<longleftrightarrow> \<not> bit status 7"
    using and_exp_eq_0_iff_not_bit [of status 7] by simp
  then show ?thesis
    by (simp add: WCOREDUMP_def bit_iff_odd)
qed

lemma WIFSIGNALED_mod: "WIFSIGNALED status \<longleftrightarrow> 0 < status mod 128 \<and> status mod 128 < 127"
proof -
  define n where "n = status mod 128"
  have "0 \<le> n" "n < 128" by (simp_all add: n_def)
  then show ?thesis
    by (auto simp: WIFSIGNALED_def and_masks drop_bit_eq_div Let_def simp flip: n_def)
qed

lemma WIFSTOPPED_mod: "WIFSTOPPED status \<longleftrightarrow> status mod 256 = 127"
  by (simp add: WIFSTOPPED_def and_masks)

lemma WIFEXITED_mod: "WIFEXITED status \<longleftrightarrow> status mod 128 = 0"
  by (simp add: WIFEXITED_def WTERMSIG_mod)

lemmas wait_macros =
  WIFEXITED_mod WIFSIGNALED_mod WIFSTOPPED_mod WIFCONTINUED_def WTERMSIG_mod
  WEXITSTATUS_div WSTOPSIG_def WCOREDUMP_div

lemma mod_range: "0 < m \<Longrightarrow> m \<le> 256 \<Longrightarrow> -(2 ^ 31) \<le> n mod m \<and> n mod m < (2 ^ 31 :: int)"
  by (rule conjI, rule order_trans [of _ 0], simp, simp, rule order_less_trans [OF pos_mod_bound], simp_all)

lemma decode_signal_r_ok:
  assumes "0 \<le> sigrtmin lc" "-(2 ^ 31) \<le> sig" "sig < 2 ^ 31"
  shows "decode_signal_r lc 32 sig = Inr (signal_text lc sig)"
proof -
  have "length (fmt_d sig) \<le> 11"
    using assms by (simp add: fmt_d_length)
  moreover have "length (fmt_d (sig - sigrtmin lc)) \<le> 11" if "sigrtmin lc \<le> sig"
    using assms that by (simp add: fmt_d_length)
  ultimately show ?thesis
    by (auto simp: decode_signal_r_def signal_text_def NSIG_def snprintf_def Let_def split: option.splits)
qed

section \<open>Properties\<close>

text \<open>
  The macros sort every status word into exactly one class, the one that arithmetic on
  the number gives: bits 0 to 6 are the terminating signal (0 for an exit, 127 for a stop),
  bit 7 tells a core dump and bits 8 to 15 hold the exit code or the stopping signal.
\<close>

lemma wait_class_macros:
  "wait_class_of status =
     (if WIFEXITED status then Exited (WEXITSTATUS status)
      else if WIFSIGNALED status then Killed (WTERMSIG status) (WCOREDUMP status)
      else if WIFSTOPPED status then Stopped (WSTOPSIG status)
      else if WIFCONTINUED status then Continued
      else Other) \<and>
   \<not> (WIFEXITED status \<and> WIFSIGNALED status) \<and> \<not> (WIFEXITED status \<and> WIFSTOPPED status) \<and>
   \<not> (WIFSIGNALED status \<and> WIFSTOPPED status) \<and> \<not> (WIFEXITED status \<and> WIFCONTINUED status) \<and>
   \<not> (WIFSIGNALED status \<and> WIFCONTINUED status) \<and> \<not> (WIFSTOPPED status \<and> WIFCONTINUED status)"
proof -
  define a b where "a = status mod 128" and "b = status mod 256"
  have "0 \<le> a" "a < 128" by (simp_all add: a_def)
  moreover have "a = b mod 128" by (simp add: a_def b_def mod_mod_cancel)
  then have "b = 127 \<Longrightarrow> a = 127" by simp
  moreover have "status = 0xffff \<Longrightarrow> a = 127 \<and> b = 255" by (simp add: a_def b_def)
  ultimately show ?thesis
    unfolding wait_class_of_def wait_macros a_def [symmetric] b_def [symmetric]
    by (cases "a = 0"; cases "a = 127"; cases "b = 127"; cases "status = 0xffff") simp_all
qed

lemma fshow_wait_status_run:
  assumes "0 \<le> sigrtmin (clib s)"
  shows "\<exists>s'. fshow_wait_status (Some st) name status s = (Inr (), s') \<and>
    flow st s' = flow st s @ fmt_s name @ '' ...'' @ nl @
      describe (clib s) status (wait_class_of status) \<and>
    io.more s' = io.more s \<and> opened s' = opened s \<and> drain s' = drain s \<and>
    (\<forall>u. u \<noteq> st \<longrightarrow> flow u s' = flow u s)"
proof -
  have "decode_signal_r (clib s) 32 (status mod 128) = Inr (signal_text (clib s) (status mod 128))"
    using mod_range [of status 128]
    by (intro decode_signal_r_ok [OF assms]) simp_all
  moreover have "decode_signal_r (clib s) 32 (status div 256 mod 256) =
      Inr (signal_text (clib s) (status div 256 mod 256))"
    using mod_range [of "status div 256" 256]
    by (intro decode_signal_r_ok [OF assms]) simp_all
  ultimately show ?thesis
    unfolding wait_class_macros [THEN conjunct1]
    by (simp add: fshow_wait_status_def prog_simps describe_def wait_macros flow_fput frame_simps Let_def)
qed

text \<open>
  C26: \<open>fshow_wait_status\<close> returns for every status word and writes the program's name and
  the explanation of the word's class, with the whole text for the signal; the assertion on
  the length of that text holds.
\<close>

theorem fshow_wait_status_correct:
  assumes "0 \<le> sigrtmin (clib s)"
  shows "\<exists>s'. fshow_wait_status (Some st) name status s = (Inr (), s') \<and>
    flow st s' = flow st s @ fmt_s name @ '' ...'' @ nl @
      describe (clib s) status (wait_class_of status)"
  using fshow_wait_status_run [OF assms, of st name status] by blast

theorem fshow_wait_status_correct_witness:
  "\<exists>s'. fshow_wait_status (Some Stderr) (Some ''ls'') 139 init_glob = (Inr (), s') \<and>
    flow Stderr s' = flow Stderr init_glob @ fmt_s (Some ''ls'') @ '' ...'' @ nl @
      describe (clib init_glob) 139 (wait_class_of 139)"
  by (rule fshow_wait_status_correct)
    (simp add: init_states)

end
