(* ===== verification/Run_Program.thy ===== *)
theory Run_Program
  imports Guard_Ptrace Wait_Status
begin

text \<open>
  Running a program under trace: \<open>src/liberrmark/run-program.c\<close>, for x86_64.

  The loop of \<open>ptrace_cmd\<close> waits for the child to stop, looks at its registers, and resumes
  it. What the kernel and the child answer in one round of the loop is a record \<open>stop\<close>; the
  loop is a function of a list of such rounds, and waits for ever when the list is used up
  (result \<open>None\<close>). Nothing is assumed of the rounds in the definitions; the theorems about
  the output assume the stops that ptrace(2) documents for a child that makes system calls.
\<close>

unbundle bit_operations_syntax

definition SIGTRAP :: int where
  "SIGTRAP = 5"

definition SIGCHLD :: int where
  "SIGCHLD = 17"

definition SYS_write :: u64 where
  "SYS_write = 1"

text \<open>
  One round: the status stored by \<open>wait\<close> (0 if it fails), the registers or the \<open>errno\<close> of
  \<open>PTRACE_GETREGS\<close>, the \<open>errno\<close>s of \<open>PTRACE_SETREGS\<close> and \<open>PTRACE_SYSCALL\<close> (0 for
  success), the child's memory, and what \<open>malloc\<close> gives: the old contents of the memory
  allocated, or an \<open>errno\<close>.
\<close>

record stop =
  wait_status :: int
  getregs :: "int + regs"
  setregs_err :: int
  syscall_err :: int
  mem_of :: memory
  heap :: "u64 \<Rightarrow> string option"
  heap_err :: int

text \<open>The local variables of \<open>ptrace_cmd\<close>; \<open>regs\<close> is unset until \<open>PTRACE_GETREGS\<close> succeeds.\<close>

record locals =
  exit_status :: int
  toggle :: int
  regs_var :: "regs option"
  wfd :: int
  waddr :: u64
  wlen :: u64

text \<open>
  \<open>wfd\<close>, \<open>waddr\<close> and \<open>wlen\<close> have no initial value in C; they are read only after a round
  that sets them (\<open>toggle = 1\<close>).
\<close>

definition init_locals :: locals where
  "init_locals = \<lparr>exit_status = 0, toggle = 0, regs_var = None, wfd = 0, waddr = 0, wlen = 0\<rparr>"

text \<open>How the body of the loop is left: by \<open>break\<close>, or for another round.\<close>

datatype 'l ctl = Break 'l | Next 'l

section \<open>The body of the loop\<close>

definition debug_print :: "string \<Rightarrow> ('a world_scheme, unit) prog" where
  "debug_print t = withs (\<lambda>s. whenp (debug s) (fputs t (Some Stderr)))"

text \<open>The end of a stop that is not one of the tracer's: the child exited or was killed.\<close>

definition child_ended :: "int \<Rightarrow> bool" where
  "child_ended status \<longleftrightarrow>
     status \<noteq> 0 \<and>
     \<not> (WIFSTOPPED status \<and> (WSTOPSIG status = SIGTRAP \<or> WSTOPSIG status = SIGCHLD))"

text \<open>The data of a write to descriptor 2 that is also copied to \<open>cf\<close>.\<close>

definition copy_stderr :: "stop \<Rightarrow> u64 \<Rightarrow> u64 \<Rightarrow> stream \<Rightarrow> ('a world_scheme, unit) prog" where
  "copy_stderr e addr len cf =
     bindp (guard_malloc (heap e len) (heap_err e) len) (\<lambda>ebuf.
     let b = snd (pmem_copy ebuf (mem_of e) addr len) in
     if overrun b then die (Fault Buffer_overflow)
     else seqp [
       upd (fwrite Stdout (take (unat len) (cells b))),
       upd (fwrite cf (take (unat len) (cells b)))])"

text \<open>The data of a write to descriptor 1 or 2, copied out of the child.\<close>

definition transfer :: "stop \<Rightarrow> int \<Rightarrow> u64 \<Rightarrow> u64 \<Rightarrow> ('a world_scheme, unit) prog" where
  "transfer e fd addr len = withs (\<lambda>s.
     case (if fd = 2 then copy_fh (cmd s) else None) of
       Some cf \<Rightarrow> copy_stderr e addr len cf
     | None \<Rightarrow> upd (\<lambda>s. snd (pmem_fwrite Stdout (mem_of e) addr len s)))"

text \<open>The start of a write system call.\<close>

definition write_entry :: "stop \<Rightarrow> regs \<Rightarrow> locals \<Rightarrow> ('a world_scheme, locals) prog" where
  "write_entry e regs l =
     (let fd = to_int (rdi regs); addr = rsi regs; len = rdx regs;
          l = l\<lparr>toggle := 1, wfd := fd, waddr := addr, wlen := len\<rparr> in
      bindp (seqp [
        debug_print (''wfd  ='' @ fmt_d fd @ nl),
        debug_print (''waddr='' @ fmt_p addr @ nl),
        debug_print (''wlen ='' @ dec (unat len) @ nl)]) (\<lambda>_.
      if fd = 1 \<or> fd = 2 then
        bindp (seqp [
          withs (\<lambda>s. whenp (mark_state (cmd s) = 0)
            (seqp [upd mark_open, upd (upd_cmd (\<lambda>c. c\<lparr>mark_state := 1\<rparr>))])),
          upd (before_write fd addr len)]) (\<lambda>_.
        withs (\<lambda>s.
        let regs = (if nullify (cmd s) then regs\<lparr>rdx := 0\<rparr> else regs) in
        bindp (guard_ptrace (PTRACE_SETREGS regs) (setregs_err e)) (\<lambda>_.
        bindp (trace_print (''> write'' @ nl)) (\<lambda>_.
        bindp (transfer e fd addr len) (\<lambda>_.
        ret (l\<lparr>regs_var := Some regs\<rparr>))))))
      else ret l))"

text \<open>The end of a write system call.\<close>

definition write_exit :: "stop \<Rightarrow> regs \<Rightarrow> locals \<Rightarrow> ('a world_scheme, locals) prog" where
  "write_exit e regs l =
     bindp (whenp (wfd l = 1 \<or> wfd l = 2) (upd (after_write (wfd l) (waddr l) (wlen l)))) (\<lambda>_.
     withs (\<lambda>s.
     let regs = (if (wfd l = 1 \<or> wfd l = 2) \<and> nullify (cmd s) then regs\<lparr>rax := wlen l\<rparr> else regs) in
     bindp (guard_ptrace (PTRACE_SETREGS regs) (setregs_err e)) (\<lambda>_.
     bindp (trace_print (''< write'' @ nl)) (\<lambda>_.
     ret (l\<lparr>toggle := 0, regs_var := Some regs\<rparr>)))))"

definition handle_write :: "stop \<Rightarrow> regs \<Rightarrow> locals \<Rightarrow> ('a world_scheme, locals) prog" where
  "handle_write e regs l =
     bindp (debug_print (''SYS_write; toggle='' @ fmt_d (toggle l) @ nl)) (\<lambda>_.
     bindp (if toggle l = 0 then write_entry e regs l else write_exit e regs l) (\<lambda>l.
     bindp (withs (\<lambda>s. whenp (cdebug (cmd s)) (seqp [
       fputs (''.'' @ nl) (Some Stderr),
       whenp (slow (cmd s)) (upd (\<lambda>s. s\<lparr>slept := Suc (slept s)\<rparr>))]))) (\<lambda>_.
     ret l)))"

definition ptrace_iter :: "stop \<Rightarrow> locals \<Rightarrow> ('a world_scheme, locals ctl) prog" where
  "ptrace_iter e l =
     (let status = wait_status e in
      if child_ended status then
        bindp (seqp [
          close_marks,
          withs (\<lambda>s. whenp (cverbose (cmd s)) (eprintf (''status=0x'' @ fmt_02x status @ nl)))])
        (\<lambda>_. ret (Break (l\<lparr>exit_status := status\<rparr>)))
      else
        bindp (guard_ptrace PTRACE_GETREGS (case getregs e of Inl err \<Rightarrow> err | Inr r \<Rightarrow> 0)) (\<lambda>ptrace_rc.
        let l = (case getregs e of Inl err \<Rightarrow> l | Inr r \<Rightarrow> l\<lparr>regs_var := Some r\<rparr>) in
        withs (\<lambda>s.
        if ptrace_rc = -1 \<and> child_exited (cmd s) then ret (Break l)
        else
          (case regs_var l of
             None \<Rightarrow> die (Fault Uninit_read)
           | Some regs \<Rightarrow>
               bindp (if orig_rax regs = SYS_write then handle_write e regs l else ret l) (\<lambda>l.
               bindp (guard_ptrace (PTRACE_SYSCALL 0) (syscall_err e)) (\<lambda>_.
               ret (Next l)))))))"

section \<open>The loop and what follows it\<close>

fun ptrace_loop :: "stop list \<Rightarrow> locals \<Rightarrow> ('a world_scheme, locals option) prog" where
  "ptrace_loop [] l = ret None"
| "ptrace_loop (e # es) l =
     bindp (ptrace_iter e l) (\<lambda>c. case c of Break l \<Rightarrow> ret (Some l) | Next l \<Rightarrow> ptrace_loop es l)"

text \<open>\<open>None\<close>: still running.\<close>

definition ptrace_cmd :: "stop list \<Rightarrow> ('a world_scheme, int option) prog" where
  "ptrace_cmd es =
     bindp (ptrace_loop es init_locals) (\<lambda>r. case r of
       None \<Rightarrow> ret None
     | Some l \<Rightarrow>
         bindp (seqp [
           close_marks,
           whenp (exit_status l \<noteq> 0) (withs (\<lambda>s. whenp (cverbose (cmd s))
             (fshow_wait_status (Some Stderr) (cmd_name (cmd s)) (exit_status l))))])
         (\<lambda>_. ret (Some (exit_status l))))"

text \<open>
  \<open>execvp\<close>, given the path and the arguments: \<open>None\<close> if it does not return, else its value
  and \<open>errno\<close>. It reads the path, so that a null one is a fault.
\<close>

type_synonym exec_fun = "string \<Rightarrow> string list \<Rightarrow> (int \<times> int) option"

definition execvp :: "exec_fun \<Rightarrow> string option \<Rightarrow> string list \<Rightarrow>
    ('a world_scheme, (int \<times> int) option) prog" where
  "execvp exec path argv =
     (case path of None \<Rightarrow> die (Fault Null_deref) | Some p \<Rightarrow> ret (exec p argv))"

text \<open>
  What \<open>fork\<close> gives: in the child 0, with the \<open>errno\<close> of \<open>PTRACE_TRACEME\<close> and what
  \<open>execvp\<close> does; in the parent a process id, or -1, and the rounds of the loop.
\<close>

datatype forked =
    In_child int exec_fun
  | In_parent int "stop list"

definition run_child :: "int \<Rightarrow> exec_fun \<Rightarrow> ('a world_scheme, int option) prog" where
  "run_child traceme_err exec =
     bindp (guard_ptrace PTRACE_TRACEME traceme_err) (\<lambda>_.
     bindp (withs (\<lambda>s. execvp exec (cmd_path (cmd s)) (cargv (cmd s)))) (\<lambda>r.
     case r of
       None \<Rightarrow> ret None
     | Some (rv, err) \<Rightarrow>
         bindp (upd (upd_cmd (\<lambda>c. c\<lparr>rc := rv\<rparr>))) (\<lambda>_.
         bindp (if rv = -1
                then withs (\<lambda>s. fputs (''execvp(): '' @ strerror (clib s) err @ nl) (Some Stderr))
                else eprintf (''execvp() failed for reasons unknown!'' @ nl)) (\<lambda>_.
         exitp 2))))"

definition run_parent :: "stop list \<Rightarrow> ('a world_scheme, int option) prog" where
  "run_parent es =
     bindp (withs (\<lambda>s. whenp (cverbose (cmd s))
       (eprintf (''child pid='' @ fmt_d (child (cmd s)) @ nl)))) (\<lambda>_.
     bindp (ptrace_cmd es) (\<lambda>r. case r of
       None \<Rightarrow> ret None
     | Some status \<Rightarrow>
         bindp (seqp [upd (upd_cmd (\<lambda>c. c\<lparr>rc := status\<rparr>)), close_marks]) (\<lambda>_.
         withs (\<lambda>s. ret (Some (rc (cmd s)))))))"

definition errmark_run_program :: "forked \<Rightarrow> ('a world_scheme, int option) prog" where
  "errmark_run_program fk =
     bindp (upd (upd_cmd (\<lambda>c. c\<lparr>mark_state := 0, child_exited := False\<rparr>))) (\<lambda>_.
     case fk of
       In_child traceme_err exec \<Rightarrow>
         bindp (upd (upd_cmd (\<lambda>c. c\<lparr>child := 0\<rparr>))) (\<lambda>_. run_child traceme_err exec)
     | In_parent pid es \<Rightarrow>
         bindp (upd (upd_cmd (\<lambda>c. c\<lparr>child := pid\<rparr>))) (\<lambda>_. run_parent es))"

end
