(* ===== verification/Session.thy ===== *)
theory Session
  imports Run_Program
begin

text \<open>
  What a run shows: the rounds that ptrace(2) documents for a child that makes system calls,
  and the output of the tracer on them.

  An \<open>activity\<close> of the child is a write system call, which stops it twice, or any other
  stop by \<open>SIGTRAP\<close> or \<open>SIGCHLD\<close>. The lemmas follow one activity through the loop of
  \<open>ptrace_cmd\<close>; the theorems lift them to whole runs by induction.
\<close>

unbundle bit_operations_syntax

section \<open>The child's activities\<close>

text \<open>
  \<open>Write e x mem hp\<close>: a write system call with registers \<open>e\<close> at its start and \<open>x\<close> at its
  end; \<open>mem\<close> is the child's memory at its start, and \<open>hp\<close> what \<open>malloc\<close> gives the tracer.
  \<open>Other status r mem\<close>: a stop outside a write system call.
\<close>

datatype activity =
    Write regs regs memory "u64 \<Rightarrow> string option"
  | Other int regs memory

definition round :: "int \<Rightarrow> regs \<Rightarrow> memory \<Rightarrow> (u64 \<Rightarrow> string option) \<Rightarrow> stop" where
  "round status r mem hp = \<lparr>wait_status = status, getregs = Inr r, setregs_err = 0,
     syscall_err = 0, mem_of = mem, heap = hp, heap_err = 0\<rparr>"

text \<open>A stop by \<open>SIGTRAP\<close>: the signal in bits 8 to 15, \<open>0x7f\<close> below.\<close>

fun rounds :: "activity \<Rightarrow> stop list" where
  "rounds (Write e x mem hp) = [round 0x57f e mem hp, round 0x57f x mem hp]"
| "rounds (Other status r mem) = [round status r mem (\<lambda>_. None)]"

definition readable :: "memory \<Rightarrow> u64 \<Rightarrow> u64 \<Rightarrow> bool" where
  "readable mem a len \<longleftrightarrow>
     word_mapped mem \<and> read_mem mem a (unat len) \<noteq> None \<and>
     (a AND 7 = 0 \<or> read_mem mem a 8 \<noteq> None)"

definition marked_fd :: "int \<Rightarrow> bool" where
  "marked_fd fd \<longleftrightarrow> fd = 1 \<or> fd = 2"

text \<open>
  What the theorems assume of an activity: its registers carry the system call's number, and
  a write to descriptor 1 or 2 has a buffer that can be read, and that fits in memory.
\<close>

fun proper :: "activity \<Rightarrow> bool" where
  "proper (Write e x mem hp) \<longleftrightarrow>
     orig_rax e = SYS_write \<and> orig_rax x = SYS_write \<and>
     (marked_fd (to_int (rdi e)) \<longrightarrow>
        rsi e \<noteq> 0 \<and> rdx e \<noteq> -1 \<and> readable mem (rsi e) (rdx e) \<and>
        map_option length (hp (rdx e)) = Some (unat (rdx e)))"
| "proper (Other status r mem) \<longleftrightarrow>
     orig_rax r \<noteq> SYS_write \<and> (status = 0x57f \<or> status = 0x117f)"

text \<open>The writes to descriptors 1 and 2, with their data.\<close>

fun writes_of :: "activity \<Rightarrow> (int \<times> string) list" where
  "writes_of (Write e x mem hp) =
     (if marked_fd (to_int (rdi e)) then [(to_int (rdi e), the (read_mem mem (rsi e) (unat (rdx e))))]
      else [])"
| "writes_of (Other status r mem) = []"

text \<open>The requests the tracer is to make.\<close>

fun requests_of :: "activity \<Rightarrow> request list" where
  "requests_of (Write e x mem hp) =
     (if marked_fd (to_int (rdi e)) then
        [PTRACE_GETREGS, PTRACE_SETREGS (e\<lparr>rdx := 0\<rparr>), PTRACE_SYSCALL 0,
         PTRACE_GETREGS, PTRACE_SETREGS (x\<lparr>rax := rdx e\<rparr>), PTRACE_SYSCALL 0]
      else
        [PTRACE_GETREGS, PTRACE_SYSCALL 0, PTRACE_GETREGS, PTRACE_SETREGS x, PTRACE_SYSCALL 0])"
| "requests_of (Other status r mem) = [PTRACE_GETREGS, PTRACE_SYSCALL 0]"

section \<open>The tracer's state during a run\<close>

text \<open>The options of a plain run: no debugging, and the copy, if any, in a file of its own.\<close>

definition plain :: "'a world_scheme \<Rightarrow> bool" where
  "plain s \<longleftrightarrow>
     \<not> debug s \<and> \<not> cdebug (cmd s) \<and> trace_fbt (cmd s) = None \<and> nullify (cmd s) \<and> quiet s \<and>
     copy_fh (cmd s) \<noteq> Some Stdout \<and> copy_fh (cmd s) \<noteq> Some Stderr"

text \<open>What a run leaves as it is.\<close>

definition settings :: "'a world_scheme \<Rightarrow> _" where
  "settings s = (start1 s, end1 s, start2 s, end2 s, copy_fh (cmd s), cverbose (cmd s),
     cmd_name (cmd s), opened s, drain s, clib s, errprint_fh s)"

abbreviation start_text :: "'a marks_scheme \<Rightarrow> int \<Rightarrow> string" where
  "start_text s fd \<equiv> mark_text (start_mark s fd)"

abbreviation end_text :: "'a marks_scheme \<Rightarrow> int \<Rightarrow> string" where
  "end_text s fd \<equiv> mark_text (end_mark s fd)"

text \<open>The descriptor whose marks are open, -1 if none.\<close>

definition open_fd :: "'a world_scheme \<Rightarrow> int" where
  "open_fd s = (if mark_state (cmd s) = 0 then -1 else cur_fd s)"

lemma settings_marks:
  "settings s = settings s' \<Longrightarrow> start_mark s = start_mark s' \<and> end_mark s = end_mark s'"
  by (auto simp: settings_def start_mark_def end_mark_def fun_eq_iff)

lemma more_eqD:
  assumes "io.more s' = io.more s" "opened s' = opened s" "drain s' = drain s"
  shows "cmd s' = cmd s" "requests s' = requests s" "cur_fd s' = cur_fd s" "debug s' = debug s"
    "settings s' = settings s"
  using assms by (cases s; cases s'; simp add: settings_def)+

lemma end_text_none [simp]: "end_text s (-1) = []"
  by (simp add: end_mark_def)

section \<open>What is produced\<close>

text \<open>What was sent to descriptor 2, for the copy.\<close>

definition stderr_data :: "(int \<times> string) list \<Rightarrow> string" where
  "stderr_data ws = concat (map snd (filter (\<lambda>w. fst w = 2) ws))"

text \<open>
  What goes to one descriptor of the tracer: of the marks, those of the descriptor itself
  (\<open>own\<close>); of the data, all to descriptor 1 and none to 2 (\<open>carried\<close>).
\<close>

definition own :: "stream \<Rightarrow> (int \<Rightarrow> string) \<Rightarrow> int \<Rightarrow> string" where
  "own st f fd = (if st = Stdout \<and> fd = 1 \<or> st = Stderr \<and> fd = 2 then f fd else [])"

definition carried :: "stream \<Rightarrow> (int \<times> string) list \<Rightarrow> (int \<times> string) list" where
  "carried st ws = (if st = Stdout then ws else map (\<lambda>w. (fst w, [])) ws)"

definition shown_on ::
  "stream \<Rightarrow> (int \<Rightarrow> string) \<Rightarrow> (int \<Rightarrow> string) \<Rightarrow> int \<Rightarrow> (int \<times> string) list \<Rightarrow> string" where
  "shown_on st ts te cur ws = marked (own st ts) (own st te) cur (carried st ws)"

lemma own_opened [simp]: "own (Opened p) f fd = []"
  by (simp add: own_def)

lemma own_none [simp]: "own st f (-1) = []"
  by (simp add: own_def)

lemma last_fd_carried [simp]: "last_fd cur (carried st ws) = last_fd cur ws"
proof (cases "st = Stdout")
  case False
  then show ?thesis by (induction ws arbitrary: cur) (auto simp: carried_def)
qed (simp add: carried_def)

lemma shown_on_append:
  "shown_on st ts te cur (ws @ vs) = shown_on st ts te cur ws @ shown_on st ts te (last_fd cur ws) vs"
proof -
  have "carried st (ws @ vs) = carried st ws @ carried st vs" by (simp add: carried_def)
  then show ?thesis by (simp add: shown_on_def marked_append)
qed

lemma shown_on_Nil [simp]: "shown_on st ts te cur [] = []"
  by (simp add: shown_on_def carried_def)

lemma shown_on_single:
  "shown_on st ts te cur [(fd, d)] =
     (if fd = cur then [] else own st te cur @ own st ts fd) @ (if st = Stdout then d else [])"
  by (simp add: shown_on_def carried_def)

text \<open>
  From \<open>s\<close> to \<open>s'\<close> the writes \<open>ws\<close> were shown, marked at each switch, and those to
  descriptor 2 copied; the requests \<open>rs\<close> were made; the options are the same. Files are not
  flushed: what was copied to one stays in its buffer until that is full.
\<close>

definition produced ::
  "(int \<times> string) list \<Rightarrow> request list \<Rightarrow> 'a world_scheme \<Rightarrow> 'a world_scheme \<Rightarrow> bool" where
  "produced ws rs s s' \<longleftrightarrow>
     tty_flow s' = tty_flow s @ marked (start_text s) (end_text s) (open_fd s) ws \<and>
     open_fd s' = last_fd (open_fd s) ws \<and> plain s' \<and> settings s' = settings s \<and>
     requests s' = requests s @ rs \<and>
     child_exited (cmd s') = (child_exited (cmd s) \<or> rs \<noteq> []) \<and>
     (\<forall>st \<in> {Stdout, Stderr}.
        flow st s' = flow st s @ shown_on st (start_text s) (end_text s) (open_fd s) ws) \<and>
     (\<forall>p. flow (Opened p) s' = flow (Opened p) s @
       (if copy_fh (cmd s) = Some (Opened p) then stderr_data ws else [])) \<and>
     (\<forall>p. held_back (Opened p) s s')"

lemma produced_plain: "produced ws rs s s' \<Longrightarrow> plain s'"
  by (simp add: produced_def)

lemma produced_none: "plain s \<Longrightarrow> produced [] [] s s"
  by (simp add: produced_def stderr_data_def held_back_same)

lemma produced_trans:
  assumes "produced ws rs s s'" "produced vs qs s' s''"
  shows "produced (ws @ vs) (rs @ qs) s s''"
proof -
  from assms(1) have "settings s' = settings s" by (simp add: produced_def)
  then have "copy_fh (cmd s') = copy_fh (cmd s)" "start_mark s' = start_mark s"
    "end_mark s' = end_mark s" and drain: "drain s' = drain s"
    using settings_marks [of s' s] by (simp_all add: settings_def)
  moreover have "held_back (Opened p) s s''" for p
  proof (rule held_back_trans [OF _ _ drain])
    show "held_back (Opened p) s s'" "held_back (Opened p) s' s''"
      using assms by (simp_all add: produced_def)
    show "length (flow (Opened p) s') \<le> length (flow (Opened p) s'')"
      using assms(2) by (simp add: produced_def)
  qed
  ultimately show ?thesis
    using assms by (simp add: produced_def marked_append last_fd_append stderr_data_def shown_on_append)
qed

section \<open>One system call\<close>

text \<open>
  What the tracer shows of a write, whatever the memory: the bytes it can fetch; if it also
  copies, then in place of the bytes it cannot fetch what the memory that \<open>malloc\<close> gave it held.
\<close>

definition shown_data :: "bool \<Rightarrow> memory \<Rightarrow> (u64 \<Rightarrow> string option) \<Rightarrow> u64 \<Rightarrow> u64 \<Rightarrow> string" where
  "shown_data copying mem hp addr len =
     (let d = fst (fetch mem addr (unat len)) in
      if copying then d @ drop (length d) (the (hp len)) else d)"

lemma shown_data_readable:
  assumes "readable mem addr len" "map_option length (hp len) = Some (unat len)"
  shows "shown_data copying mem hp addr len = the (read_mem mem addr (unat len))"
proof -
  from assms(1) obtain d where d: "word_mapped mem" "read_mem mem addr (unat len) = Some d"
    "addr AND 7 = 0 \<or> read_mem mem addr 8 \<noteq> None"
    by (auto simp: readable_def)
  from assms(2) obtain g where "hp len = Some g" "length g = unat len" by auto
  then show ?thesis
    using d(2) by (simp add: shown_data_def fetch_mapped [OF d] length_read_mem [OF d(2)])
qed

definition copying :: "int \<Rightarrow> 'a world_scheme \<Rightarrow> bool" where
  "copying fd s \<longleftrightarrow> fd = 2 \<and> copy_fh (cmd s) \<noteq> None"

lemma transfer_ok:
  assumes hp: "copying fd s \<Longrightarrow> map_option length (heap e len) = Some (unat len)"
    and s: "quiet s" "copy_fh (cmd s) \<noteq> Some Stdout" "copy_fh (cmd s) \<noteq> Some Stderr"
    and x: "x = shown_data (copying fd s) (mem_of e) (heap e) addr len"
  shows "\<exists>s'. transfer e fd addr len s = (Inr (), s') \<and> tty_flow s' = tty_flow s @ x \<and> quiet s' \<and>
    io.more s' = io.more s \<and> opened s' = opened s \<and> drain s' = drain s \<and>
    flow Stdout s' = flow Stdout s @ x \<and> flow Stderr s' = flow Stderr s \<and>
    (\<forall>p. flow (Opened p) s' = flow (Opened p) s @
      (if fd = 2 \<and> copy_fh (cmd s) = Some (Opened p) then x else [])) \<and>
    (\<forall>p. held_back (Opened p) s s')"
proof -
  obtain d ok where F: "fetch (mem_of e) addr (unat len) = (d, ok)" by fastforce
  show ?thesis
  proof (cases "copying fd s")
    case False
    then have x: "x = d" and copy: "(if fd = 2 then copy_fh (cmd s) else None) = None"
      using F by (auto simp: x shown_data_def copying_def)
    from fwt.walk_fetch [OF F, where s = s and ?s0.0 = s] s(1) obtain s' where
      s': "snd (pmem_fwrite Stdout (mem_of e) addr len s) = s'"
      "tty_flow s' = tty_flow s @ d" "quiet s'" "same_but Stdout s s'" by auto
    have "flow Stdout s' = flow Stdout s @ d"
      using fw.walk_fetch [OF F, where s = s and ?s0.0 = s and st = Stdout] s'(1) by auto
    moreover have "flow st s' = flow st s" if "st \<noteq> Stdout" for st
      using s'(4) that by (simp add: same_but_def flow_def)
    moreover have "held_back (Opened p) s s'" for p
      using s'(4) by (simp add: same_but_def held_back_same)
    ultimately show ?thesis using s' x copy
      by (auto simp: transfer_def prog_simps same_but_def split: if_splits)
  next
    case True
    with s obtain p where fd: "fd = 2" "copy_fh (cmd s) = Some (Opened p)"
      by (cases "copy_fh (cmd s)"; cases "the (copy_fh (cmd s))") (auto simp: copying_def)
    from hp [OF True] obtain g where g: "heap e len = Some g" "length g = unat len" by auto
    then have "unat len \<le> length g" by simp
    from pmem_copy_contents [OF F this] obtain r b where
      b: "pmem_copy g (mem_of e) addr len = (r, b)" "\<not> overrun b" "cells b = d @ drop (length d) g"
      "length d \<le> length g" by blast
    then have cells: "cells b = x" "length x = unat len"
      using g True F by (simp_all add: x shown_data_def)
    let ?s1 = "fwrite Stdout x s"
    let ?s' = "fwrite (Opened p) x ?s1"
    have "transfer e fd addr len s = (Inr (), ?s')"
      using fd g b(1,2) cells by (simp add: transfer_def copy_stderr_def guard_malloc_def prog_simps)
    moreover have "tty_flow ?s' = tty_flow s @ x" "quiet ?s'"
      using s(1) by (simp_all add: fwrite_laws)
    moreover have "io.more ?s' = io.more s" "opened ?s' = opened s" "drain ?s' = drain s"
      by (simp_all add: fwrite_def frame_simps)
    moreover have "flow Stdout ?s' = flow Stdout s @ x" "flow Stderr ?s' = flow Stderr s"
      "flow (Opened q) ?s' = flow (Opened q) s @ (if q = p then x else [])" for q
      by (simp_all add: fwrite_laws)
    moreover have "held_back (Opened q) s ?s'" for q
    proof (rule held_back_trans [OF held_back_fwrite held_back_fwrite])
      show "drain ?s1 = drain s" by (simp add: fwrite_def frame_simps)
      show "length (flow (Opened q) ?s1) \<le> length (flow (Opened q) ?s')"
        by (simp add: fwrite_laws)
    qed
    ultimately show ?thesis using fd by auto
  qed
qed

text \<open>The marking of a write: the first one opens the session.\<close>

definition mark_write :: "int \<Rightarrow> u64 \<Rightarrow> u64 \<Rightarrow> 'a world_scheme \<Rightarrow> 'a world_scheme" where
  "mark_write fd addr len s =
     before_write fd addr len
       (if mark_state (cmd s) = 0 then upd_cmd (\<lambda>c. c\<lparr>mark_state := 1\<rparr>) (mark_open s) else s)"

lemma flow_write_marks:
  "on_terminal ms \<Longrightarrow>
   flow st (write_marks ms s) = flow st s @ mark_text (filter (\<lambda>m. fst m = st) ms)"
proof (induction ms arbitrary: s)
  case Nil
  then show ?case by (simp add: write_marks_def)
next
  case (Cons m ms)
  obtain t d where m: "m = (t, d)" by fastforce
  have "write_marks (m # ms) s = write_marks ms (sys_write t d (sync s))"
    by (simp add: write_marks_def m)
  moreover have "flow st (sys_write t d (sync s)) = flow st s @ (if t = st then d else [])"
    using Cons.prems by (auto simp: m on_terminal_def flow_sys_write)
  ultimately show ?case using Cons by (simp add: m on_terminal_def)
qed

lemma content_write_marks:
  "on_terminal ms \<Longrightarrow> content (Opened p) (write_marks ms s) = content (Opened p) s"
proof (induction ms arbitrary: s)
  case (Cons m ms)
  obtain t d where m: "m = (t, d)" by fastforce
  have "content (Opened p) (sys_write t d (sync s)) = content (Opened p) s"
    using Cons.prems by (auto simp: m on_terminal_def content_sys_write sync_def content_fflush_other)
  with Cons show ?case by (simp add: write_marks_def m on_terminal_def)
qed (simp add: write_marks_def)

lemma own_marks:
  "mark_text (filter (\<lambda>m. fst m = st) (start_mark s fd)) = own st (start_text s) fd"
  "mark_text (filter (\<lambda>m. fst m = st) (end_mark s fd)) = own st (end_text s) fd"
  by (simp only: own_def start_mark_def end_mark_def split: if_split option.split, auto)+

lemma mark_write_ok:
  assumes "marked_fd fd" "addr \<noteq> 0" "len \<noteq> -1"
  shows "tty_flow (mark_write fd addr len s) =
      tty_flow s @ (if fd = open_fd s then [] else end_text s (open_fd s) @ start_text s fd) \<and>
    cur_fd (mark_write fd addr len s) = fd \<and> mark_state (cmd (mark_write fd addr len s)) \<noteq> 0 \<and>
    requests (mark_write fd addr len s) = requests s \<and>
    settings (mark_write fd addr len s) = settings s \<and>
    (plain s \<longrightarrow> plain (mark_write fd addr len s)) \<and>
    content (Opened p) (mark_write fd addr len s) = content (Opened p) s \<and>
    flow st (mark_write fd addr len s) = flow st s @
      (if fd = open_fd s then [] else own st (end_text s) (open_fd s) @ own st (start_text s) fd)"
proof -
  define s0 where "s0 = (if mark_state (cmd s) = 0 then upd_cmd (\<lambda>c. c\<lparr>mark_state := 1\<rparr>) (mark_open s) else s)"
  have fd: "fd = 1 \<or> fd = 2" using assms(1) by (simp add: marked_fd_def)
  have s0: "cur_fd s0 = open_fd s" "tty_flow s0 = tty_flow s" "requests s0 = requests s"
    "settings s0 = settings s" "plain s0 = plain s" "mark_state (cmd s0) \<noteq> 0"
    "flow st s0 = flow st s" "content (Opened p) s0 = content (Opened p) s"
    by (simp_all add: s0_def mark_open_def open_fd_def settings_def plain_def frame_simps)
  define ms where "ms = switch_marks s0 (cur_fd s0) fd"
  have ms: "on_terminal ms" by (simp add: ms_def switch_marks_def) (simp add: on_terminal_def)
  have eq: "mark_write fd addr len s = (write_marks ms s0)\<lparr>cur_fd := fd\<rparr>"
    unfolding mark_write_def s0_def [symmetric] ms_def by (rule before_write_marks [OF fd assms(2,3)])
  have mtext: "mark_text ms = (if fd = open_fd s then [] else end_text s (open_fd s) @ start_text s fd)"
    using settings_marks [OF s0(4)] by (simp add: ms_def switch_marks_def s0(1))
  have "own st (start_text s0) = own st (start_text s)" "own st (end_text s0) = own st (end_text s)"
    using settings_marks [OF s0(4)] by simp_all
  then have mown: "mark_text (filter (\<lambda>m. fst m = st) ms) =
      (if fd = open_fd s then [] else own st (end_text s) (open_fd s) @ own st (start_text s) fd)"
    by (simp add: ms_def switch_marks_def s0(1) own_marks)
  show ?thesis
    using s0 ms mtext mown write_marks_quiet [of s0 ms]
    by (auto simp: eq write_marks_tty flow_write_marks content_write_marks frame_simps settings_def
        plain_def)
qed


section \<open>One activity\<close>

text \<open>The state after the successful \<open>PTRACE_GETREGS\<close> and the like.\<close>

definition asked :: "request \<Rightarrow> 'a world_scheme \<Rightarrow> 'a world_scheme" where
  "asked r s = upd_cmd (\<lambda>c. c\<lparr>child_exited := True\<rparr>) (log_request r s)"

lemma asked_frame [frame_simps]:
  "requests (asked r s) = requests s @ [r]" "cur_fd (asked r s) = cur_fd s"
  "mark_state (cmd (asked r s)) = mark_state (cmd s)" "tty_flow (asked r s) = tty_flow s"
  "flow st (asked r s) = flow st s" "settings (asked r s) = settings s"
  "plain (asked r s) = plain s" "open_fd (asked r s) = open_fd s"
  "nullify (cmd (asked r s)) = nullify (cmd s)" "debug (asked r s) = debug s"
  "cdebug (cmd (asked r s)) = cdebug (cmd s)" "trace_fbt (cmd (asked r s)) = trace_fbt (cmd s)"
  "child_exited (cmd (asked r s)) = True" "content st (asked r s) = content st s"
  by (simp_all add: asked_def frame_simps settings_def plain_def open_fd_def)

lemma guard_ptrace_asked: "plain s \<Longrightarrow> guard_ptrace r 0 s = (Inr 0, asked r s)"
  by (simp add: guard_ptrace_ok plain_def asked_def)

lemma trap_status:
  "\<not> child_ended 0x57f" "\<not> child_ended 0x117f"
  by (simp_all add: child_ended_def wait_macros SIGTRAP_def SIGCHLD_def)

text \<open>A round of the loop on a stop with registers \<open>r\<close>, up to the system call's handling.\<close>

lemma ptrace_iter_round:
  assumes "plain s" "\<not> child_ended status"
  shows "ptrace_iter (round status r mem hp) l s =
    (bindp (if orig_rax r = SYS_write
            then handle_write (round status r mem hp) r (l\<lparr>regs_var := Some r\<rparr>)
            else ret (l\<lparr>regs_var := Some r\<rparr>)) (\<lambda>l.
     bindp (guard_ptrace (PTRACE_SYSCALL 0) 0) (\<lambda>_. ret (Next l)))) (asked PTRACE_GETREGS s)"
  using assms
  by (simp add: ptrace_iter_def round_def bindp_Inr [OF guard_ptrace_asked] withs_run)

lemma handle_write_plain:
  "plain s \<Longrightarrow> handle_write e r l s =
     bindp (if toggle l = 0 then write_entry e r l else write_exit e r l) (\<lambda>l.
       withs (\<lambda>s. if cdebug (cmd s) then bindp (seqp [
         fputs (''.'' @ nl) (Some Stderr),
         whenp (slow (cmd s)) (upd (\<lambda>s. s\<lparr>slept := Suc (slept s)\<rparr>))]) (\<lambda>_. ret l)
       else ret l)) s"
  by (auto simp: handle_write_def debug_print_def plain_def prog_simps whenp_def
      split: prod.splits sum.splits intro!: arg_cong2 [where f = bindp])

text \<open>The start of a write to a marked descriptor.\<close>

lemma write_entry_ok:
  fixes s :: "'a world_scheme"
  assumes s: "plain s" and act: "marked_fd (to_int (rdi r))" "rsi r \<noteq> 0" "rdx r \<noteq> -1"
    and hp: "copying (to_int (rdi r)) s \<Longrightarrow> map_option length (hp (rdx r)) = Some (unat (rdx r))"
    and d: "d = shown_data (copying (to_int (rdi r)) s) mem hp (rsi r) (rdx r)"
  shows "\<exists>s'. write_entry (round status r mem hp) r l s =
      (Inr (l\<lparr>toggle := 1, wfd := to_int (rdi r), waddr := rsi r, wlen := rdx r,
              regs_var := Some (r\<lparr>rdx := 0\<rparr>)\<rparr>), s') \<and>
    produced [(to_int (rdi r), d)] [PTRACE_SETREGS (r\<lparr>rdx := 0\<rparr>)] s s'"
proof -
  let ?fd = "to_int (rdi r)" and ?addr = "rsi r" and ?len = "rdx r"
  let ?e = "round status r mem hp" and ?r = "r\<lparr>rdx := 0\<rparr>"
  define s1 where "s1 = mark_write ?fd ?addr ?len s"
  define s2 where "s2 = asked (PTRACE_SETREGS ?r) s1"
  note m = mark_write_ok [OF act, of s, folded s1_def]
  have s2: "plain s2" "settings s2 = settings s" "cur_fd s2 = ?fd" "mark_state (cmd s2) \<noteq> 0"
    "requests s2 = requests s @ [PTRACE_SETREGS ?r]" "tty_flow s2 = tty_flow s1"
    "child_exited (cmd s2)" "content (Opened p) s2 = content (Opened p) s"
    "flow st s2 = flow st s @ (if ?fd = open_fd s then []
       else own st (end_text s) (open_fd s) @ own st (start_text s) ?fd)" for st p
    using m s by (simp_all add: s2_def frame_simps)
  have "quiet s2" "copy_fh (cmd s2) \<noteq> Some Stdout" "copy_fh (cmd s2) \<noteq> Some Stderr"
    using s2(1) by (simp_all add: plain_def)
  moreover have copy: "copy_fh (cmd s2) = copy_fh (cmd s)"
    using s2(2) by (simp add: settings_def)
  then have "copying ?fd s2 = copying ?fd s" by (simp add: copying_def)
  ultimately obtain s' where
    tr: "transfer ?e ?fd ?addr ?len s2 = (Inr (), s')"
    and out: "tty_flow s' = tty_flow s2 @ d" "quiet s'" "flow Stdout s' = flow Stdout s2 @ d"
      "flow Stderr s' = flow Stderr s2"
      "\<forall>p. flow (Opened p) s' = flow (Opened p) s2 @
        (if ?fd = 2 \<and> copy_fh (cmd s2) = Some (Opened p) then d else [])"
      "\<forall>p. held_back (Opened p) s2 s'"
    and same: "io.more s' = io.more s2" "opened s' = opened s2" "drain s' = drain s2"
    using transfer_ok [of ?fd s2 ?e ?len d ?addr] hp d by (auto simp: round_def)
  note same' = more_eqD [OF same]
  have plain': "plain s'"
    using s2(1) out(2) same' by (simp add: plain_def)
  have "plain s1" using m s by simp
  then have guard: "guard_ptrace (PTRACE_SETREGS ?r) 0 s1 = (Inr 0, s2)"
    unfolding s2_def by (rule guard_ptrace_asked)
  have null: "nullify (cmd s1)" "\<not> debug s" "trace_fbt (cmd s2) = None" "setregs_err ?e = 0"
    using \<open>plain s1\<close> s s2(1) by (simp_all add: plain_def round_def)
  have "write_entry ?e r l s =
      (Inr (l\<lparr>toggle := 1, wfd := ?fd, waddr := ?addr, wlen := ?len, regs_var := Some ?r\<rparr>), s')"
    using act(1) null tr guard
    by (simp add: write_entry_def marked_fd_def debug_print_def trace_print_def prog_simps
        s1_def mark_write_def Let_def split: if_splits)
  moreover have "open_fd s' = ?fd"
    using same' s2 by (simp add: open_fd_def)
  moreover have "held_back (Opened p) s s'" for p
  proof (rule held_back_trans [of _ s s2])
    show "held_back (Opened p) s s2" by (rule held_back_same) (rule s2(8))
    show "held_back (Opened p) s2 s'" using out(6) by blast
    show "drain s2 = drain s" using s2(2) by (simp add: settings_def)
    show "length (flow (Opened p) s2) \<le> length (flow (Opened p) s')" using out(5) by simp
  qed
  ultimately show ?thesis
    using out s2 same' plain' copy m
    by (intro exI [of _ s']) (auto simp: produced_def stderr_data_def shown_on_single)
qed

lemma asked_produced: "plain s \<Longrightarrow> produced [] [r] s (asked r s)"
  by (simp add: produced_def stderr_data_def held_back_same frame_simps)

text \<open>The start of a write to any other descriptor: nothing is done.\<close>

lemma write_entry_unmarked:
  "plain s \<Longrightarrow> \<not> marked_fd (to_int (rdi r)) \<Longrightarrow>
   write_entry e r l s =
     (Inr (l\<lparr>toggle := 1, wfd := to_int (rdi r), waddr := rsi r, wlen := rdx r\<rparr>), s)"
  by (simp add: write_entry_def marked_fd_def debug_print_def prog_simps plain_def Let_def)

text \<open>The end of a write.\<close>

lemma write_exit_ok:
  assumes "plain s"
  shows "write_exit (round status x mem hp) x l s =
    (let x' = (if marked_fd (wfd l) then x\<lparr>rax := wlen l\<rparr> else x) in
     (Inr (l\<lparr>toggle := 0, regs_var := Some x'\<rparr>), asked (PTRACE_SETREGS x') s))"
proof -
  have "setregs_err (round status x mem hp) = 0" by (simp add: round_def)
  moreover have "guard_ptrace r 0 s = (Inr 0, asked r s)" for r
    using assms by (rule guard_ptrace_asked)
  moreover have "after_write fd a n s = s" for fd a n by (simp add: after_write_def)
  moreover have "nullify (cmd s)" "trace_fbt (cmd s) = None"
    using assms by (simp_all add: plain_def)
  ultimately show ?thesis
    by (simp add: write_exit_def trace_print_def prog_simps marked_fd_def Let_def frame_simps)
qed

section \<open>One round\<close>

text \<open>What follows the handling of a write, when nothing is debugged.\<close>

lemma handle_write_entry:
  assumes "plain s" "toggle l = 0" "write_entry e r l s = (Inr l', s')" "plain s'"
  shows "handle_write e r l s = (Inr l', s')"
  using assms by (simp add: handle_write_plain bindp_Inr withs_run ret_run) (simp add: plain_def)

lemma handle_write_exit:
  assumes "plain s" "toggle l \<noteq> 0" "write_exit e r l s = (Inr l', s')" "plain s'"
  shows "handle_write e r l s = (Inr l', s')"
  using assms by (simp add: handle_write_plain bindp_Inr withs_run ret_run) (simp add: plain_def)

lemma iter_write:
  assumes "plain s" "orig_rax r = SYS_write" "\<not> child_ended status"
    and "handle_write (round status r mem hp) r (l\<lparr>regs_var := Some r\<rparr>) (asked PTRACE_GETREGS s) =
      (Inr l', s')"
    and "produced ws rs (asked PTRACE_GETREGS s) s'"
  shows "ptrace_iter (round status r mem hp) l s = (Inr (Next l'), asked (PTRACE_SYSCALL 0) s') \<and>
    produced ws ([PTRACE_GETREGS] @ rs @ [PTRACE_SYSCALL 0]) s (asked (PTRACE_SYSCALL 0) s')"
proof -
  from assms(5) have "plain s'" by (rule produced_plain)
  then show ?thesis
    using produced_trans [OF asked_produced [OF assms(1)]
        produced_trans [OF assms(5) asked_produced [OF \<open>plain s'\<close>]]] assms(1-4)
    by (simp add: ptrace_iter_round bindp_Inr [where s' = s' and a = l']
        bindp_Inr [where m = "guard_ptrace r 0" for r, OF guard_ptrace_asked] ret_run)
qed

text \<open>The requests of the round at the start of a write.\<close>

definition entry_requests :: "regs \<Rightarrow> request list" where
  "entry_requests e =
     (if marked_fd (to_int (rdi e))
      then [PTRACE_GETREGS, PTRACE_SETREGS (e\<lparr>rdx := 0\<rparr>), PTRACE_SYSCALL 0]
      else [PTRACE_GETREGS, PTRACE_SYSCALL 0])"

lemma iter_entry_any:
  assumes "plain s" "orig_rax e = SYS_write" "toggle l = 0" "\<not> child_ended status"
    and "marked_fd (to_int (rdi e))" "rsi e \<noteq> 0" "rdx e \<noteq> -1"
    and "copying (to_int (rdi e)) s \<Longrightarrow> map_option length (hp (rdx e)) = Some (unat (rdx e))"
    and "d = shown_data (copying (to_int (rdi e)) s) mem hp (rsi e) (rdx e)"
  shows "\<exists>l' s'. ptrace_iter (round status e mem hp) l s = (Inr (Next l'), s') \<and>
    toggle l' = 1 \<and> wfd l' = to_int (rdi e) \<and> wlen l' = rdx e \<and> exit_status l' = exit_status l \<and>
    produced [(to_int (rdi e), d)] (entry_requests e) s s'"
proof -
  let ?s = "asked PTRACE_GETREGS s" and ?l = "l\<lparr>regs_var := Some e\<rparr>"
  have plain: "plain ?s" using assms(1) by (simp add: frame_simps)
  have toggle: "toggle ?l = 0" using assms(3) by simp
  have c: "copying fd ?s = copying fd s" for fd
    by (simp add: copying_def asked_def frame_simps)
  from write_entry_ok [OF plain assms(5-7), of hp d mem status ?l] assms(8,9) obtain s' where
    w: "write_entry (round status e mem hp) e ?l ?s =
      (Inr (?l\<lparr>toggle := 1, wfd := to_int (rdi e), waddr := rsi e, wlen := rdx e,
            regs_var := Some (e\<lparr>rdx := 0\<rparr>)\<rparr>), s')"
    and p: "produced [(to_int (rdi e), d)] [PTRACE_SETREGS (e\<lparr>rdx := 0\<rparr>)] ?s s'"
    by (auto simp: c)
  from iter_write [OF assms(1,2,4) handle_write_entry [OF plain toggle w produced_plain [OF p]] p] assms(5)
  show ?thesis by (auto simp: entry_requests_def)
qed

lemma iter_entry:
  assumes "plain s" "proper (Write e x mem hp)" "toggle l = 0" "\<not> child_ended status"
  shows "\<exists>l' s'. ptrace_iter (round status e mem hp) l s = (Inr (Next l'), s') \<and>
    toggle l' = 1 \<and> wfd l' = to_int (rdi e) \<and> wlen l' = rdx e \<and> exit_status l' = exit_status l \<and>
    produced (writes_of (Write e x mem hp)) (entry_requests e) s s'"
proof (cases "marked_fd (to_int (rdi e))")
  case True
  then have ok: "orig_rax e = SYS_write" "rsi e \<noteq> 0" "rdx e \<noteq> -1" "readable mem (rsi e) (rdx e)"
    "map_option length (hp (rdx e)) = Some (unat (rdx e))"
    using assms(2) by simp_all
  from iter_entry_any [where s = s and e = e and l = l and status = status and hp = hp and mem = mem
      and d = "shown_data (copying (to_int (rdi e)) s) mem hp (rsi e) (rdx e)"]
    assms(1,3,4) True ok
  show ?thesis by (auto simp: shown_data_readable [where hp = hp, OF ok(4,5)])
next
  case False
  let ?s = "asked PTRACE_GETREGS s" and ?l = "l\<lparr>regs_var := Some e\<rparr>"
  have sys: "orig_rax e = SYS_write" using assms(2) by simp
  have plain: "plain ?s" using assms(1) by (simp add: frame_simps)
  have toggle: "toggle ?l = 0" using assms(3) by simp
  note w = write_entry_unmarked [OF plain False, of "round status e mem hp" ?l]
  from iter_write [OF assms(1) sys assms(4) handle_write_entry [OF plain toggle w plain]
      produced_none [OF plain]] False
  show ?thesis by (auto simp: entry_requests_def)
qed

lemma iter_exit:
  assumes "plain s" "orig_rax x = SYS_write" "toggle l = 1"
  shows "\<exists>l' s'. ptrace_iter (round 0x57f x mem hp) l s = (Inr (Next l'), s') \<and>
    toggle l' = 0 \<and> exit_status l' = exit_status l \<and>
    produced [] [PTRACE_GETREGS,
      PTRACE_SETREGS (if marked_fd (wfd l) then x\<lparr>rax := wlen l\<rparr> else x), PTRACE_SYSCALL 0] s s'"
proof -
  let ?s = "asked PTRACE_GETREGS s" and ?l = "l\<lparr>regs_var := Some x\<rparr>"
  let ?x = "if marked_fd (wfd l) then x\<lparr>rax := wlen l\<rparr> else x"
  have plain: "plain ?s" using assms(1) by (simp add: frame_simps)
  then have plain': "plain (asked (PTRACE_SETREGS ?x) ?s)" by (simp add: frame_simps)
  have toggle: "toggle ?l \<noteq> 0" using assms(3) by simp
  have w: "write_exit (round 0x57f x mem hp) x ?l ?s =
      (Inr (?l\<lparr>toggle := 0, regs_var := Some ?x\<rparr>), asked (PTRACE_SETREGS ?x) ?s)"
    by (simp add: write_exit_ok [OF plain] Let_def)
  from iter_write [OF assms(1,2) trap_status(1) handle_write_exit [OF plain toggle w plain']
      asked_produced [OF plain]]
  show ?thesis by auto
qed

lemma iter_other:
  assumes "plain s" "proper (Other status r mem)"
  shows "\<exists>l' s'. ptrace_iter (round status r mem hp) l s = (Inr (Next l'), s') \<and>
    toggle l' = toggle l \<and> exit_status l' = exit_status l \<and>
    produced [] [PTRACE_GETREGS, PTRACE_SYSCALL 0] s s'"
proof -
  let ?s = "asked PTRACE_GETREGS s"
  have plain: "plain ?s" using assms(1) by (simp add: frame_simps)
  have "\<not> child_ended status" using assms(2) trap_status by auto
  with assms guard_ptrace_asked [OF plain] have "ptrace_iter (round status r mem hp) l s =
      (Inr (Next (l\<lparr>regs_var := Some r\<rparr>)), asked (PTRACE_SYSCALL 0) ?s)"
    by (simp add: ptrace_iter_round bindp_run ret_run)
  then show ?thesis
    using produced_trans [OF asked_produced [OF assms(1)] asked_produced [OF plain]] by auto
qed

section \<open>The loop\<close>

lemma loop_next: "ptrace_iter e l s = (Inr (Next l'), s') \<Longrightarrow> ptrace_loop (e # es) l s = ptrace_loop es l' s'"
  by (simp add: bindp_Inr)

text \<open>The two stops of a write, once the first one is known to produce \<open>ws\<close>.\<close>

lemma loop_write_stops:
  assumes entry: "ptrace_iter (round 0x57f e mem hp) l s = (Inr (Next l1), s1)" "toggle l1 = 1"
      "wfd l1 = to_int (rdi e)" "wlen l1 = rdx e" "exit_status l1 = exit_status l"
    and p1: "produced ws (entry_requests e) s s1" and x: "orig_rax x = SYS_write"
  shows "\<exists>l' s'. ptrace_loop (rounds (Write e x mem hp) @ es) l s = ptrace_loop es l' s' \<and>
    toggle l' = 0 \<and> exit_status l' = exit_status l \<and>
    produced ws (requests_of (Write e x mem hp)) s s'"
proof -
  from iter_exit [OF produced_plain [OF p1] x entry(2), of mem hp] obtain l2 s2 where
    two: "ptrace_iter (round 0x57f x mem hp) l1 s1 = (Inr (Next l2), s2)" "toggle l2 = 0"
      "exit_status l2 = exit_status l1" and
    p2: "produced [] [PTRACE_GETREGS,
      PTRACE_SETREGS (if marked_fd (wfd l1) then x\<lparr>rax := wlen l1\<rparr> else x), PTRACE_SYSCALL 0] s1 s2"
    by blast
  have "produced ws (requests_of (Write e x mem hp)) s s2"
    using produced_trans [OF p1 p2] by (simp add: entry entry_requests_def split: if_splits)
  moreover have "ptrace_loop (rounds (Write e x mem hp) @ es) l s = ptrace_loop es l2 s2"
    using entry(1) two(1) by (simp add: loop_next del: ptrace_loop.simps)
  ultimately show ?thesis using entry(5) two(2,3) by (intro exI [of _ l2] exI [of _ s2]) simp
qed

lemma loop_activity:
  assumes "plain s" "proper a" "toggle l = 0"
  shows "\<exists>l' s'. ptrace_loop (rounds a @ es) l s = ptrace_loop es l' s' \<and>
    toggle l' = 0 \<and> exit_status l' = exit_status l \<and> produced (writes_of a) (requests_of a) s s'"
proof (cases a)
  case (Write e x mem hp)
  have "orig_rax x = SYS_write" using assms(2) by (simp add: Write)
  with iter_entry [OF assms(1) assms(2) [unfolded Write] assms(3) trap_status(1)]
  show ?thesis unfolding Write by (elim exE conjE) (rule loop_write_stops)
next
  case (Other status r mem)
  from iter_other [OF assms(1) assms(2) [unfolded Other], of "\<lambda>_. None" l] obtain l' s' where
    one: "ptrace_iter (round status r mem (\<lambda>_. None)) l s = (Inr (Next l'), s')"
      "toggle l' = toggle l" "exit_status l' = exit_status l"
      "produced [] [PTRACE_GETREGS, PTRACE_SYSCALL 0] s s'"
    by blast
  then have "ptrace_loop (rounds a @ es) l s = ptrace_loop es l' s'"
    by (simp add: Other loop_next del: ptrace_loop.simps)
  with one assms(3) show ?thesis by (intro exI [of _ l'] exI [of _ s']) (simp add: Other)
qed

lemma loop_activities:
  assumes "plain s" "list_all proper as" "toggle l = 0"
  shows "\<exists>l' s'. ptrace_loop (concat (map rounds as) @ es) l s = ptrace_loop es l' s' \<and>
    toggle l' = 0 \<and> exit_status l' = exit_status l \<and>
    produced (concat (map writes_of as)) (concat (map requests_of as)) s s'"
  using assms
proof (induction as arbitrary: l s)
  case Nil
  then show ?case using produced_none by auto
next
  case (Cons a as)
  then obtain l1 s1 where
    one: "ptrace_loop (rounds a @ (concat (map rounds as) @ es)) l s =
        ptrace_loop (concat (map rounds as) @ es) l1 s1"
      "toggle l1 = 0" "exit_status l1 = exit_status l" "produced (writes_of a) (requests_of a) s s1"
    using loop_activity [of s a l "concat (map rounds as) @ es"] by auto
  from Cons.IH [OF produced_plain [OF one(4)] _ one(2)] Cons.prems(2) obtain l2 s2 where
    rest: "ptrace_loop (concat (map rounds as) @ es) l1 s1 = ptrace_loop es l2 s2"
      "toggle l2 = 0" "exit_status l2 = exit_status l1"
      "produced (concat (map writes_of as)) (concat (map requests_of as)) s1 s2"
    by auto
  with one produced_trans [OF one(4) rest(4)] show ?case
    by (intro exI [of _ l2] exI [of _ s2]) simp
qed

section \<open>The whole run\<close>

definition close_step :: "'a world_scheme \<Rightarrow> 'a world_scheme" where
  "close_step s = (if mark_state (cmd s) = 0 then s else mark_close s)"

lemma close_marks_step: "close_marks s = (Inr (), close_step s)"
  by (simp add: close_marks_def close_step_def prog_simps)

lemma close_step_frame [frame_simps]:
  "tty_flow (close_step s) = tty_flow s @ end_text s (open_fd s)"
  "open_fd (close_step s) = open_fd s" "end_mark (close_step s) fd = end_mark s fd"
  "requests (close_step s) = requests s" "cmd (close_step s) = cmd s"
  "flow st (close_step s) = flow st s @ own st (end_text s) (open_fd s)"
  by (simp_all add: close_step_def open_fd_def mark_close_marks write_marks_tty marks_of_frame
      flow_write_marks own_marks frame_simps)

text \<open>The state in which the parent enters the loop.\<close>

definition begin_run :: "int \<Rightarrow> 'a world_scheme \<Rightarrow> 'a world_scheme" where
  "begin_run pid s =
     upd_cmd (\<lambda>c. c\<lparr>child := pid\<rparr>) (upd_cmd (\<lambda>c. c\<lparr>mark_state := 0, child_exited := False\<rparr>) s)"

text \<open>The state at the end of a run whose last round leaves the loop in \<open>s\<close>.\<close>

definition finish_run :: "int \<Rightarrow> 'a world_scheme \<Rightarrow> 'a world_scheme" where
  "finish_run status s = close_step (upd_cmd (\<lambda>c. c\<lparr>rc := status\<rparr>) (close_step s))"

lemma upd_cmd_marks [frame_simps]:
  "end_mark (upd_cmd f s) fd = end_mark s fd" "start_mark (upd_cmd f s) fd = start_mark s fd"
  by (simp_all add: end_mark_def start_mark_def frame_simps)

lemma run_frame [frame_simps]:
  "tty_flow (begin_run pid s) = tty_flow s" "open_fd (begin_run pid s) = -1"
  "plain (begin_run pid s) = plain s" "requests (begin_run pid s) = requests s"
  "flow st (begin_run pid s) = flow st s" "copy_fh (cmd (begin_run pid s)) = copy_fh (cmd s)"
  "end_mark (begin_run pid s) fd = end_mark s fd" "start_mark (begin_run pid s) fd = start_mark s fd"
  "cverbose (cmd (begin_run pid s)) = cverbose (cmd s)"
  by (simp_all add: begin_run_def open_fd_def plain_def frame_simps)

lemma finish_run_frame [frame_simps]:
  "tty_flow (finish_run status s) = tty_flow s @ end_text s (open_fd s) @ end_text s (open_fd s)"
  "requests (finish_run status s) = requests s"
  "flow st (finish_run status s) =
     flow st s @ own st (end_text s) (open_fd s) @ own st (end_text s) (open_fd s)"
proof -
  have "open_fd (upd_cmd (\<lambda>c. c\<lparr>rc := status\<rparr>) t) = open_fd t" for t :: "'a world_scheme"
    by (simp add: open_fd_def frame_simps)
  then show "tty_flow (finish_run status s) =
      tty_flow s @ end_text s (open_fd s) @ end_text s (open_fd s)"
    "flow st (finish_run status s) =
      flow st s @ own st (end_text s) (open_fd s) @ own st (end_text s) (open_fd s)"
    by (simp_all add: finish_run_def frame_simps)
qed (simp add: finish_run_def frame_simps)

lemma ptrace_cmd_broke:
  assumes "ptrace_loop es init_locals s = (Inr (Some l), s')" "\<not> cverbose (cmd s')"
  shows "ptrace_cmd es s = (Inr (Some (exit_status l)), close_step s')"
  using assms
  by (simp add: ptrace_cmd_def bindp_run close_marks_step whenp_run withs_run ret_run frame_simps)

lemma run_parent_broke:
  assumes "ptrace_loop es init_locals (begin_run pid s) = (Inr (Some l), s')"
    and "\<not> cverbose (cmd s)" "\<not> cverbose (cmd s')"
  shows "errmark_run_program (In_parent pid es) s =
    (Inr (Some (exit_status l)), finish_run (exit_status l) s')"
  using ptrace_cmd_broke [OF assms(1,3)] assms(2)
  by (simp add: errmark_run_program_def run_parent_def begin_run_def [symmetric] finish_run_def)
    (simp add: bindp_run close_marks_step whenp_run withs_run ret_run upd_run frame_simps begin_run_def)

text \<open>
  The two ways a child is seen to end: \<open>wait\<close> gives its status, or, when it left with
  status 0, the next request fails since it is gone.
\<close>

lemma run_ended:
  assumes "plain s" "\<not> cverbose (cmd s)" "list_all proper as" "child_ended (wait_status e)"
  shows "\<exists>s1. produced (concat (map writes_of as)) (concat (map requests_of as)) (begin_run pid s) s1 \<and>
    errmark_run_program (In_parent pid (concat (map rounds as) @ [e])) s =
      (Inr (Some (wait_status e)), finish_run (wait_status e) (close_step s1))"
proof -
  have "plain (begin_run pid s)" using assms(1) by (simp add: frame_simps)
  from loop_activities [OF this assms(3), of init_locals "[e]"] obtain l s1 where
    loop: "ptrace_loop (concat (map rounds as) @ [e]) init_locals (begin_run pid s) = ptrace_loop [e] l s1"
    and p: "produced (concat (map writes_of as)) (concat (map requests_of as)) (begin_run pid s) s1"
    by (auto simp: init_locals_def)
  from p have "settings s1 = settings (begin_run pid s)" by (simp add: produced_def)
  then have v: "\<not> cverbose (cmd s1)" using assms(2) by (simp add: settings_def frame_simps)
  then have "ptrace_loop [e] l s1 = (Inr (Some (l\<lparr>exit_status := wait_status e\<rparr>)), close_step s1)"
    using assms(4)
    by (simp add: ptrace_iter_def Let_def bindp_run close_marks_step whenp_run withs_run ret_run
        frame_simps)
  with loop have "ptrace_loop (concat (map rounds as) @ [e]) init_locals (begin_run pid s) =
      (Inr (Some (l\<lparr>exit_status := wait_status e\<rparr>)), close_step s1)" by simp
  from run_parent_broke [OF this assms(2)] v p show ?thesis
    by (auto simp: frame_simps)
qed

text \<open>The last stop of a child that left with status 0.\<close>

definition gone :: "stop \<Rightarrow> bool" where
  "gone e \<longleftrightarrow> wait_status e = 0 \<and> getregs e = Inl ESRCH"

lemma run_gone:
  assumes "plain s" "\<not> cverbose (cmd s)" "list_all proper as" "as \<noteq> []" "gone e"
  shows "\<exists>s1. produced (concat (map writes_of as)) (concat (map requests_of as)) (begin_run pid s) s1 \<and>
    errmark_run_program (In_parent pid (concat (map rounds as) @ [e])) s =
      (Inr (Some 0), finish_run 0 (log_request PTRACE_GETREGS s1))"
proof -
  have "plain (begin_run pid s)" using assms(1) by (simp add: frame_simps)
  from loop_activities [OF this assms(3), of init_locals "[e]"] obtain l s1 where
    loop: "ptrace_loop (concat (map rounds as) @ [e]) init_locals (begin_run pid s) = ptrace_loop [e] l s1"
    and l: "exit_status l = 0"
    and p: "produced (concat (map writes_of as)) (concat (map requests_of as)) (begin_run pid s) s1"
    by (auto simp: init_locals_def)
  have "requests_of a \<noteq> []" for a by (cases a) simp_all
  then have "child_exited (cmd s1)"
    using p assms(4) by (cases as) (simp_all add: produced_def)
  moreover have "guard_ptrace PTRACE_GETREGS ESRCH s1 = (Inr (-1), log_request PTRACE_GETREGS s1)"
    using produced_plain [OF p] by (simp add: plain_def guard_ptrace_esrch)
  moreover have "\<not> child_ended 0" by (simp add: child_ended_def)
  ultimately have "ptrace_loop [e] l s1 = (Inr (Some l), log_request PTRACE_GETREGS s1)"
    using assms(5)
    by (simp add: ptrace_iter_def gone_def Let_def bindp_run withs_run ret_run frame_simps)
  with loop have broke: "ptrace_loop (concat (map rounds as) @ [e]) init_locals (begin_run pid s) =
      (Inr (Some l), log_request PTRACE_GETREGS s1)" by simp
  from p have "settings s1 = settings (begin_run pid s)" by (simp add: produced_def)
  then have "\<not> cverbose (cmd (log_request PTRACE_GETREGS s1))"
    using assms(2) by (simp add: settings_def frame_simps)
  from run_parent_broke [OF broke assms(2) this] l p show ?thesis by auto
qed

lemma writes_of_fds: "-1 \<notin> set (map fst (concat (map writes_of as)))"
proof -
  have "-1 \<notin> fst ` set (writes_of a)" for a
    by (cases a) (auto simp: marked_fd_def)
  then show ?thesis by auto
qed

text \<open>
  The outcome of a run of the writes \<open>ws\<close>: what a terminal, each descriptor and each file
  have been given, with \<open>k\<close> further end marks at the end.
\<close>

definition outcome :: "nat \<Rightarrow> (int \<times> string) list \<Rightarrow> request list \<Rightarrow> 'a world_scheme \<Rightarrow> 'a world_scheme \<Rightarrow> bool" where
  "outcome k ws rs s t \<longleftrightarrow>
     quiet t \<and> opened t = opened s \<and> requests t = requests s @ rs \<and>
     tty_flow t = tty_flow s @ bracketed (start_text s) (end_text s) (runs ws) @
       concat (replicate k (end_text s (last_fd (-1) ws))) \<and>
     (\<forall>st \<in> {Stdout, Stderr}. flow st t = flow st s @
       bracketed (own st (start_text s)) (own st (end_text s)) (runs (carried st ws)) @
       concat (replicate k (own st (end_text s) (last_fd (-1) ws)))) \<and>
     (\<forall>p. flow (Opened p) t = flow (Opened p) s @
       (if copy_fh (cmd s) = Some (Opened p) then stderr_data ws else []))"

lemma close_step_quiet: "quiet s \<Longrightarrow> quiet (close_step s) \<and> opened (close_step s) = opened s"
  by (simp add: close_step_def mark_close_marks write_marks_quiet write_marks_world)

lemma finish_run_quiet: "quiet s \<Longrightarrow> quiet (finish_run n s) \<and> opened (finish_run n s) = opened s"
  by (simp add: finish_run_def close_step_quiet frame_simps)

lemma produced_outcome:
  assumes p: "produced ws rs (begin_run pid s) s1" and ws: "-1 \<notin> set (map fst ws)"
    and t: "t = s1 \<and> k = 1 \<or> t = close_step s1 \<and> k = 2"
  shows "outcome k ws rs s (finish_run n t)"
proof -
  let ?en = "end_text s (last_fd (-1) ws)" and ?own = "\<lambda>st. own st (end_text s) (last_fd (-1) ws)"
  have m: "start_mark s1 = start_mark s" "end_mark s1 = end_mark s"
    using p settings_marks [of s1 "begin_run pid s"]
    by (simp_all add: produced_def fun_eq_iff frame_simps)
  have last: "open_fd s1 = last_fd (-1) ws" using p by (simp add: produced_def frame_simps)
  have shows_tty: "tty_flow s1 @ ?en = tty_flow s @ bracketed (start_text s) (end_text s) (runs ws)"
    using p marked_bracketed [of "end_text s", OF end_text_none ws, of "start_text s"]
    by (simp add: produced_def frame_simps)
  have shows_fd: "flow st s1 @ ?own st = flow st s @
      bracketed (own st (start_text s)) (own st (end_text s)) (runs (carried st ws))"
    if "st \<in> {Stdout, Stderr}" for st
  proof -
    have "map fst (carried st ws) = map fst ws" by (simp add: carried_def)
    then have "-1 \<notin> set (map fst (carried st ws))" using ws by simp
    from marked_bracketed [of "own st (end_text s)", OF own_none this, of "own st (start_text s)"]
    show ?thesis using p that by (auto simp: produced_def shown_on_def frame_simps)
  qed
  have "quiet s1" "opened s1 = opened s"
    using produced_plain [OF p] p
    by (simp_all add: plain_def produced_def settings_def begin_run_def frame_simps)
  then have "quiet (finish_run n t)" "opened (finish_run n t) = opened s"
    using t by (auto simp: close_step_quiet finish_run_quiet)
  moreover have "tty_flow (finish_run n t) = tty_flow s1 @ ?en @ concat (replicate k ?en)"
    "\<And>st. flow st (finish_run n t) = flow st s1 @ ?own st @ concat (replicate k (?own st))"
    using t by (auto simp: m last numeral_2_eq_2 frame_simps)
  moreover have "requests (finish_run n t) = requests s @ rs"
    using p t by (auto simp: produced_def frame_simps)
  moreover have "flow (Opened q) s1 = flow (Opened q) s @
      (if copy_fh (cmd s) = Some (Opened q) then stderr_data ws else [])" for q
    using p by (simp add: produced_def frame_simps)
  ultimately show ?thesis
    using shows_tty shows_fd unfolding outcome_def by (simp flip: append_assoc)
qed

lemma run_ended_outcome:
  assumes "plain s" "\<not> cverbose (cmd s)" "list_all proper as" "child_ended (wait_status e)"
  shows "\<exists>t. errmark_run_program (In_parent pid (concat (map rounds as) @ [e])) s =
      (Inr (Some (wait_status e)), t) \<and>
    outcome 2 (concat (map writes_of as)) (concat (map requests_of as)) s t"
  using run_ended [OF assms, of pid] produced_outcome [OF _ writes_of_fds] by blast

lemma run_gone_outcome:
  assumes "plain s" "\<not> cverbose (cmd s)" "list_all proper as" "as \<noteq> []" "gone e"
  shows "\<exists>t. errmark_run_program (In_parent pid (concat (map rounds as) @ [e])) s = (Inr (Some 0), t) \<and>
    outcome 1 (concat (map writes_of as)) (concat (map requests_of as) @ [PTRACE_GETREGS]) s t"
proof -
  from run_gone [OF assms, of pid] obtain s1 where
    p: "produced (concat (map writes_of as)) (concat (map requests_of as)) (begin_run pid s) s1" and
    r: "errmark_run_program (In_parent pid (concat (map rounds as) @ [e])) s =
      (Inr (Some 0), finish_run 0 (log_request PTRACE_GETREGS s1))" by blast
  from p have "child_exited (cmd s1)"
    using assms(4) by (cases as; cases "hd as") (simp_all add: produced_def)
  then have "log_request PTRACE_GETREGS s1 = asked PTRACE_GETREGS s1"
    by (simp add: asked_def upd_cmd_def log_request_def)
  with produced_trans [OF p asked_produced [OF produced_plain [OF p]]] r show ?thesis
    using produced_outcome [OF _ writes_of_fds, of as _ pid s _ _ 1] by auto
qed

section \<open>Properties\<close>

text \<open>
  A run whose child's end is reported by \<open>wait\<close>, as a status that is not 0 (it exited
  with an error, was killed, or was stopped by another signal), returns that status and shows
  the child's output to descriptors 1 and 2 bracketed: every maximal run of writes to one
  descriptor once, in order, between the marks of that descriptor. The last end mark is then
  repeated twice, by the two further calls of \<open>mark_close\<close>.
\<close>

lemma run_output:
  assumes "plain s" "\<not> cverbose (cmd s)" "list_all proper as" "child_ended (wait_status e)"
  shows "\<exists>s'. errmark_run_program (In_parent pid (concat (map rounds as) @ [e])) s =
      (Inr (Some (wait_status e)), s') \<and>
    tty_flow s' = tty_flow s @
      bracketed (start_text s) (end_text s) (runs (concat (map writes_of as))) @
      concat (replicate 2 (end_text s (last_fd (-1) (concat (map writes_of as)))))"
  using run_ended_outcome [OF assms, of pid] by (auto simp: outcome_def)

text \<open>
  A run whose child left with status 0 (then \<open>wait\<close> stores 0 and the next request fails)
  returns 0 and shows the same, with the last end mark repeated once.
\<close>

lemma run_output_success:
  assumes "plain s" "\<not> cverbose (cmd s)" "list_all proper as" "as \<noteq> []" "gone e"
  shows "\<exists>s'. errmark_run_program (In_parent pid (concat (map rounds as) @ [e])) s =
      (Inr (Some 0), s') \<and>
    tty_flow s' = tty_flow s @
      bracketed (start_text s) (end_text s) (runs (concat (map writes_of as))) @
      end_text s (last_fd (-1) (concat (map writes_of as)))"
  using run_gone_outcome [OF assms, of pid] by (auto simp: outcome_def)

text \<open>
  With a file to copy to, a run appends to that file exactly the data that the child wrote
  to descriptor 2, in order and without marks; nothing is written to any other file.
\<close>

lemma run_copies_stderr:
  assumes "plain s" "\<not> cverbose (cmd s)" "list_all proper as" "child_ended (wait_status e)"
  shows "flow (Opened p) (snd (errmark_run_program (In_parent pid (concat (map rounds as) @ [e])) s)) =
    flow (Opened p) s @
    (if copy_fh (cmd s) = Some (Opened p) then stderr_data (concat (map writes_of as)) else [])"
  using run_ended_outcome [OF assms, of pid] by (auto simp: outcome_def)

text \<open>The end of a run: the child's end is seen, or the child, which left with status 0, is gone.\<close>

definition over :: "activity list \<Rightarrow> stop \<Rightarrow> bool" where
  "over as e \<longleftrightarrow> child_ended (wait_status e) \<or> as \<noteq> [] \<and> gone e"

lemma run_over_outcome:
  assumes "plain s" "\<not> cverbose (cmd s)" "list_all proper as" "over as e"
  shows "\<exists>n t. errmark_run_program (In_parent pid (concat (map rounds as) @ [e])) s = (Inr (Some n), t) \<and>
    outcome (if child_ended (wait_status e) then 2 else 1) (concat (map writes_of as))
      (concat (map requests_of as) @ (if child_ended (wait_status e) then [] else [PTRACE_GETREGS])) s t"
proof (cases "child_ended (wait_status e)")
  case True
  from run_ended_outcome [OF assms(1-3) True, of pid] True show ?thesis by auto
next
  case False
  with assms(4) have "as \<noteq> []" "gone e" by (simp_all add: over_def)
  from run_gone_outcome [OF assms(1-3) this, of pid] False show ?thesis by auto
qed

text \<open>
  C10: the tracer is transparent but for the write system calls it replaces: the requests it
  makes are those of \<open>requests_of\<close>, so that at the start of a write to descriptor 1 or 2 the
  length alone is changed, to 0, at its end the result alone, to the length asked for, and no
  other register at any other stop. The child is resumed with no signal after each stop, also
  after one by \<open>SIGCHLD\<close>: that signal it does not get. After a child that left with status 0
  its registers are asked for once more, which tells that it is gone.
\<close>

theorem run_requests:
  assumes "plain s" "\<not> cverbose (cmd s)" "list_all proper as" "over as e"
  shows "requests (snd (errmark_run_program (In_parent pid (concat (map rounds as) @ [e])) s)) =
    requests s @ concat (map requests_of as) @
      (if child_ended (wait_status e) then [] else [PTRACE_GETREGS])"
  using run_over_outcome [OF assms, of pid] by (auto simp: outcome_def)

section \<open>An example run\<close>

text \<open>
  The child starts (a stop in \<open>execve\<close>, system call 59), writes \<open>ABC\<close> to descriptor 2 and
  exits with status 1. Stderr is marked with \<open><\<close> and \<open>>\<close>, and copied to a file.
\<close>

definition demo_regs :: "u64 \<Rightarrow> regs" where
  "demo_regs nr = \<lparr>orig_rax = nr, rdi = 2, rsi = 65, rdx = 3, rax = 0, other_regs = []\<rparr>"

definition demo_run :: "activity list" where
  "demo_run = [Other 0x57f (demo_regs 59) low_page,
     Write (demo_regs 1) (demo_regs 1) low_page (\<lambda>n. Some (replicate (unat n) CHR ''.''))]"

definition demo_world :: world where
  "demo_world = init_world\<lparr>start2 := Some ''<'', end2 := Some ''>'',
     cmd := zero_cmd\<lparr>nullify := True, copy_fh := Some (Opened ''errs'')\<rparr>\<rparr>"

definition demo_exit :: stop where
  "demo_exit = (round 0x100 (demo_regs 231) low_page (\<lambda>_. None))"

lemma demo_ok:
  "plain demo_world" "\<not> cverbose (cmd demo_world)" "list_all proper demo_run"
  "child_ended (wait_status demo_exit)"
proof -
  show "plain demo_world" "\<not> cverbose (cmd demo_world)"
    by (simp_all add: demo_world_def plain_def quiet_def init_states)
  have "read_mem low_page 65 8 \<noteq> None"
    using read_mem_defined [of 8 low_page 65]
    by (auto simp: low_page_def word_less_nat_alt unat_word_ariths unat_of_nat)
  then show "list_all proper demo_run"
    using word_mapped_low_page
    by (simp add: demo_run_def demo_regs_def SYS_write_def readable_def low_page_ABC [simplified])
  show "child_ended (wait_status demo_exit)"
    by (simp add: demo_exit_def round_def child_ended_def wait_macros)
qed

lemma demo_over: "over demo_run demo_exit" "over demo_run (demo_exit\<lparr>wait_status := 0, getregs := Inl ESRCH\<rparr>)"
  using demo_ok(4) by (simp_all add: over_def gone_def demo_run_def)

lemma demo_writes: "concat (map writes_of demo_run) = [(2, ''ABC'')]"
  by (simp add: demo_run_def demo_regs_def marked_fd_def to_int_def low_page_ABC [simplified])

theorem run_requests_witness:
  "requests (snd (errmark_run_program
     (In_parent 7 (concat (map rounds demo_run) @ [demo_exit])) demo_world)) =
   [PTRACE_GETREGS, PTRACE_SYSCALL 0,
    PTRACE_GETREGS, PTRACE_SETREGS ((demo_regs 1)\<lparr>rdx := 0\<rparr>), PTRACE_SYSCALL 0,
    PTRACE_GETREGS, PTRACE_SETREGS ((demo_regs 1)\<lparr>rax := 3\<rparr>), PTRACE_SYSCALL 0]"
  unfolding run_requests [OF demo_ok(1-3) demo_over(1)] if_P [OF demo_ok(4)]
  by (simp add: demo_world_def demo_run_def demo_regs_def marked_fd_def to_int_def init_states)

end
