(* ===== verification/Tracer.thy ===== *)
theory Tracer
  imports Session "HOL-Library.Sublist"
begin

text \<open>
  What holds of the tracer whatever the kernel and the child do: the loop as an event loop and
  as a step relation, what every round keeps, when the loop ends and with what result.

  Two interfaces are used. \<open>event_loop\<close> is a loop driven by a list of events; \<open>kept\<close> is a
  relation between states that is reflexive and transitive, hence kept by a program when its
  parts keep it.
\<close>

section \<open>Event loops\<close>

locale event_loop =
  fixes body :: "'e \<Rightarrow> 'l \<Rightarrow> ('s, 'l ctl) prog"
    and loop :: "'e list \<Rightarrow> 'l \<Rightarrow> ('s, 'l option) prog"
  assumes loop_Nil: "loop [] l = ret None"
    and loop_Cons: "loop (e # es) l =
      bindp (body e l) (\<lambda>c. case c of Break l \<Rightarrow> ret (Some l) | Next l \<Rightarrow> loop es l)"
begin

lemma loop_cases:
  "loop (e # es) l s =
     (case body e l s of
        (Inl h, s') \<Rightarrow> (Inl h, s')
      | (Inr (Break l'), s') \<Rightarrow> (Inr (Some l'), s')
      | (Inr (Next l'), s') \<Rightarrow> loop es l' s')"
  by (simp add: loop_Cons bindp_run ret_run split: prod.split sum.split ctl.split)

text \<open>Events after the end are not looked at.\<close>

lemma loop_stable: "loop es l s = (r, s') \<Longrightarrow> r \<noteq> Inr None \<Longrightarrow> loop (es @ fs) l s = (r, s')"
proof (induction es arbitrary: l s)
  case Nil
  then show ?case by (simp add: loop_Nil ret_run)
next
  case (Cons e es)
  then show ?case by (auto simp: loop_cases split: prod.splits sum.splits ctl.splits)
qed

text \<open>An event that never asks for another round ends the loop.\<close>

lemma loop_ends:
  assumes "\<And>l s l' s'. body e l s \<noteq> (Inr (Next l'), s')" and "e \<in> set es"
  shows "fst (loop es l s) \<noteq> Inr None"
  using assms(2)
proof (induction es arbitrary: l s)
  case Nil
  then show ?case by simp
next
  case (Cons a es)
  then show ?case
    using assms(1) by (auto simp: loop_cases split: prod.splits sum.splits ctl.splits)
qed

text \<open>The loop rule: \<open>P\<close> while it runs, \<open>Q\<close> when it breaks.\<close>

lemma loop_rule:
  assumes "P l s"
    and "\<And>e l s l' s'. e \<in> set es \<Longrightarrow> P l s \<Longrightarrow> body e l s = (Inr (Next l'), s') \<Longrightarrow> P l' s'"
    and "\<And>e l s l' s'. e \<in> set es \<Longrightarrow> P l s \<Longrightarrow> body e l s = (Inr (Break l'), s') \<Longrightarrow> Q l'"
    and "loop es l s = (Inr (Some l'), s')"
  shows "Q l'"
  using assms
proof (induction es arbitrary: l s)
  case Nil
  then show ?case by (simp add: loop_Nil ret_run)
next
  case (Cons e es)
  from Cons.prems(4) consider
    (broke) s1 where "body e l s = (Inr (Break l'), s1)"
  | (more) l1 s1 where "body e l s = (Inr (Next l1), s1)" "loop es l1 s1 = (Inr (Some l'), s')"
    by (auto simp: loop_cases split: prod.splits sum.splits ctl.splits)
  then show ?case
  proof cases
    case broke
    then show ?thesis using Cons.prems(1,3) by (meson list.set_intros(1))
  next
    case more
    show ?thesis
    proof (rule Cons.IH [OF _ _ _ more(2)])
      show "P l1 s1" using Cons.prems(1,2) more(1) by (meson list.set_intros(1))
    qed (use Cons.prems(2,3) in \<open>meson list.set_intros(2)\<close>)+
  qed
qed

end

interpretation tracer: event_loop ptrace_iter ptrace_loop
  by unfold_locales simp_all

section \<open>What every program keeps\<close>

definition keeps :: "('s \<Rightarrow> 's \<Rightarrow> bool) \<Rightarrow> ('s, 'a) prog \<Rightarrow> bool" where
  "keeps R m \<longleftrightarrow> (\<forall>s. R s (snd (m s)))"

lemma keepsI: "(\<And>s. R s (snd (m s))) \<Longrightarrow> keeps R m"
  by (simp add: keeps_def)

lemma keeps_withs: "(\<And>s. keeps R (f s)) \<Longrightarrow> keeps R (withs f)"
  by (simp add: keeps_def withs_run)

lemma keeps_upd: "(\<And>s. R s (f s)) \<Longrightarrow> keeps R (upd f)"
  by (simp add: keeps_def upd_run)

locale kept =
  fixes R :: "'s \<Rightarrow> 's \<Rightarrow> bool"
  assumes refl: "R s s"
    and trans: "R s s' \<Longrightarrow> R s' s'' \<Longrightarrow> R s s''"
begin

lemma keeps_ret: "keeps R (ret a)"
  by (simp add: keeps_def ret_run refl)

lemma keeps_die: "keeps R (die h)"
  by (simp add: keeps_def die_run refl)

lemma keeps_bindp: "keeps R m \<Longrightarrow> (\<And>a. keeps R (k a)) \<Longrightarrow> keeps R (bindp m k)"
  unfolding keeps_def bindp_run
  by (auto split: prod.splits sum.splits intro: trans) (metis snd_conv trans)+

lemma keeps_whenp: "keeps R m \<Longrightarrow> keeps R (whenp b m)"
  by (simp add: whenp_def keeps_ret)

lemma keeps_seqp: "list_all (keeps R) ms \<Longrightarrow> keeps R (seqp ms)"
  by (induction ms) (auto simp: keeps_ret intro: keeps_bindp)

lemma keeps_loop:
  assumes "\<And>e l. keeps R (body e l)" "event_loop body loop"
  shows "keeps R (loop es l)"
proof (induction es arbitrary: l)
  case Nil
  show ?case by (simp add: event_loop.loop_Nil [OF assms(2)] keeps_ret)
next
  case (Cons e es)
  show ?case
    unfolding event_loop.loop_Cons [OF assms(2)]
    by (intro keeps_bindp assms(1)) (auto simp: keeps_ret Cons.IH split: ctl.split)
qed

lemmas keeps_rules = keeps_ret keeps_die keeps_bindp keeps_whenp keeps_seqp keeps_withs

end

section \<open>What the tracer keeps\<close>

text \<open>The command without the fields that a run sets.\<close>

definition cmd_options :: "cmd \<Rightarrow> cmd" where
  "cmd_options c = c\<lparr>mark_state := 0, child := 0, child_status := 0, rc := 0, child_exited := False\<rparr>"

definition stays_in :: "int set \<Rightarrow> int \<Rightarrow> int \<Rightarrow> bool" where
  "stays_in A i j \<longleftrightarrow> (i \<in> A \<longrightarrow> j \<in> A)"

lemma stays_in_same [simp]: "stays_in A i i" "i \<in> A \<Longrightarrow> stays_in A j i"
  by (simp_all add: stays_in_def)

lemma stays_in_trans: "stays_in A i j \<Longrightarrow> stays_in A j k \<Longrightarrow> stays_in A i k"
  by (simp add: stays_in_def)

text \<open>
  The marks, the options and the open files are the same, output and requests are only ever
  added, and the state of the marker stays within its values.
\<close>

definition steady :: "'a world_scheme \<Rightarrow> 'a world_scheme \<Rightarrow> bool" where
  "steady s s' \<longleftrightarrow>
     start1 s' = start1 s \<and> end1 s' = end1 s \<and> start2 s' = start2 s \<and> end2 s' = end2 s \<and>
     cmd_options (cmd s') = cmd_options (cmd s) \<and> opened s' = opened s \<and>
     drain s' = drain s \<and> clib s' = clib s \<and> errprint_fh s' = errprint_fh s \<and>
     prefix (written s) (written s') \<and> prefix (requests s) (requests s') \<and>
     stays_in {-1, 1, 2} (cur_fd s) (cur_fd s') \<and>
     stays_in {0, 1} (mark_state (cmd s)) (mark_state (cmd s'))"

interpretation steady: kept steady
proof
  fix s s' s'' :: "'a world_scheme"
  show "steady s s" by (simp add: steady_def)
  show "steady s s' \<Longrightarrow> steady s' s'' \<Longrightarrow> steady s s''"
    unfolding steady_def by (simp add: stays_in_trans) (meson prefix_order.trans stays_in_trans)
qed

lemma steady_put [simp]:
  "steady s (fput st d s)" "steady s (fwrite st d s)" "steady s (fflush st s)"
  "steady s (sys_write st d s)"
  by (auto simp: steady_def fwrite_def io_defs)

lemma steady_upd_cmd:
  "(\<And>c. cmd_options (f c) = cmd_options c) \<Longrightarrow>
   (\<And>c. stays_in {0, 1} (mark_state c) (mark_state (f c))) \<Longrightarrow> steady s (upd_cmd f s)"
  by (simp add: steady_def upd_cmd_def)

lemma steady_log [simp]: "steady s (log_request r s)"
  by (simp add: steady_def log_request_def)

lemma steady_write_marks: "steady s (write_marks ms s)"
proof (induction ms arbitrary: s)
  case Nil
  then show ?case by (simp add: write_marks_def steady.refl)
next
  case (Cons m ms)
  have "steady s (sys_write (fst m) (snd m) (sync s))"
    unfolding sync_def by (meson steady.trans steady_put)
  then show ?case
    using Cons [of "sys_write (fst m) (snd m) (sync s)"]
    by (auto simp: write_marks_def case_prod_beta intro: steady.trans)
qed

lemma steady_marks [simp]:
  "steady s (mark_open s)" "steady s (mark_close s)" "steady s (after_write fd a n s)"
  by (simp_all add: mark_close_marks steady_write_marks after_write_def steady.refl)
    (simp add: steady_def mark_open_def)

lemma steady_before_write [simp]: "steady s (before_write fd a n s)"
proof -
  have set_fd: "steady s (t\<lparr>cur_fd := 1\<rparr>)" "steady s (t\<lparr>cur_fd := 2\<rparr>)" if "steady s t" for t
    using that by (auto simp: steady_def)
  have "steady s (write_marks ms (write_marks ns s))" for ms ns
    using steady_write_marks steady_write_marks by (rule steady.trans)
  then show ?thesis
    by (auto simp: before_write_def Let_def switch_from_fd_marks switch_to_fd_marks steady.refl
        intro!: set_fd)
qed

text \<open>A transfer, by the interface of the walk.\<close>

interpretation fwk: word_transfer "fwrite Stdout" "flow Stdout" "\<lambda>n. steady s0"
    "fflush Stdout" "fwrite_head Stdout" "fwrite_words Stdout" "pmem_fwrite Stdout" for s0
  by unfold_locales
    (auto simp add: fwrite_laws fwrite_head_def pmem_fwrite_def fwrite_words.simps [symmetric]
      intro: steady.trans)

lemma steady_fwrite [simp]: "steady s (snd (pmem_fwrite Stdout mem a len s))"
proof -
  obtain d ok where "fetch mem a (unat len) = (d, ok)" by fastforce
  from fwk.walk_fetch [OF this, where s = s and ?s0.0 = s] show ?thesis
    by (auto simp: steady.refl)
qed

lemma steady_flush_all [simp]: "steady s (flush_all s)"
proof -
  have "steady s (fold fflush fs s)" for fs
    by (induction fs arbitrary: s) (auto simp: steady.refl intro: steady.trans [OF steady_put(3)])
  then show ?thesis by (simp add: flush_all_def)
qed

section \<open>Every operation of the tracer is steady\<close>

lemmas steady_rules = steady.keeps_rules

lemma keeps_split:
  "(b \<Longrightarrow> keeps R m) \<Longrightarrow> (\<not> b \<Longrightarrow> keeps R n) \<Longrightarrow> keeps R (if b then m else n)"
  by simp

lemma steady_upd: "(\<And>s. steady s (f s)) \<Longrightarrow> keeps steady (upd f)"
  by (rule keeps_upd)

lemma steady_fputs [simp]: "keeps steady (fputs t f)"
  by (cases f) (simp_all add: fputs_def steady.keeps_die steady_upd)

lemma steady_eprintf [simp]: "keeps steady (eprintf t)"
  by (simp add: eprintf_def keeps_withs)

lemma steady_exitp [simp]: "keeps steady (exitp n)"
  by (simp add: keeps_def exitp_def)

lemma steady_trace_print [simp]: "keeps steady (trace_print t)"
  by (auto simp: trace_print_def steady.keeps_ret intro!: keeps_withs split: option.split)

lemma steady_debug_print [simp]: "keeps steady (debug_print t)"
  by (simp add: debug_print_def steady.keeps_whenp keeps_withs)

lemma steady_close_marks [simp]: "keeps steady close_marks"
  by (simp add: close_marks_def steady.keeps_whenp keeps_withs steady_upd)

lemma steady_fshow_errno [simp]: "keeps steady (fshow_errno f t err)"
  by (auto simp: fshow_errno_def intro!: steady_rules keeps_split split: option.splits)

lemma steady_guard_ptrace [simp]: "keeps steady (guard_ptrace r err)"
  by (auto simp: guard_ptrace_def cmd_options_def intro!: steady_rules steady_upd steady_upd_cmd)

lemma steady_eexplain_err [simp]: "keeps steady (eexplain_err err)"
  by (simp add: eexplain_err_def fexplain_err_def keeps_withs)

lemma steady_guard_malloc [simp]: "keeps steady (guard_malloc mem err sz)"
  by (auto simp: guard_malloc_def intro!: steady_rules split: option.split)

lemma steady_copy_stderr [simp]: "keeps steady (copy_stderr e a n cf)"
  by (auto simp: copy_stderr_def Let_def intro!: steady_rules steady_upd)

lemma steady_transfer [simp]: "keeps steady (transfer e fd a n)"
  by (auto simp: transfer_def intro!: keeps_withs steady_upd split: option.split)

lemma steady_write_entry [simp]: "keeps steady (write_entry e r l)"
  by (auto simp: write_entry_def Let_def cmd_options_def
      intro!: steady_rules steady_upd steady_upd_cmd)

lemma steady_write_exit [simp]: "keeps steady (write_exit e r l)"
  by (auto simp: write_exit_def Let_def intro!: steady_rules steady_upd)

lemma steady_handle_write [simp]: "keeps steady (handle_write e r l)"
  by (auto simp: handle_write_def steady_def intro!: steady_rules steady_upd)

lemma steady_iter [simp]: "keeps steady (ptrace_iter e l)"
  by (auto simp: ptrace_iter_def Let_def intro!: steady_rules split: option.split sum.split)

lemma steady_loop [simp]: "keeps steady (ptrace_loop es l)"
  by (intro steady.keeps_loop [of ptrace_iter] steady_iter tracer.event_loop_axioms)

lemma steady_fshow_wait_status [simp]: "keeps steady (fshow_wait_status f name status)"
proof -
  have "keeps steady (lift_res r)" for r
    by (simp add: keeps_def lift_res_run steady.refl)
  then show ?thesis
    by (auto simp: fshow_wait_status_def Let_def intro!: steady_rules)
qed

lemma steady_ptrace_cmd [simp]: "keeps steady (ptrace_cmd es)"
  by (auto simp: ptrace_cmd_def intro!: steady_rules split: option.split)

lemma steady_run_child [simp]: "keeps steady (run_child err exec)"
  by (auto simp: run_child_def execvp_def cmd_options_def intro!: steady_rules steady_upd steady_upd_cmd
      split: option.split)

lemma steady_run_parent [simp]: "keeps steady (run_parent es)"
  by (auto simp: run_parent_def cmd_options_def intro!: steady_rules steady_upd steady_upd_cmd
      split: option.split)

section \<open>Results\<close>

definition yields :: "('a \<Rightarrow> bool) \<Rightarrow> ('s, 'a) prog \<Rightarrow> bool" where
  "yields P m \<longleftrightarrow> (\<forall>s a s'. m s = (Inr a, s') \<longrightarrow> P a)"

lemma yieldsD: "yields P m \<Longrightarrow> m s = (Inr a, s') \<Longrightarrow> P a"
  by (auto simp: yields_def)

lemma yields_ret: "P a \<Longrightarrow> yields P (ret a)"
  by (simp add: yields_def ret_run)

lemma yields_die: "yields P (die h)"
  by (simp add: yields_def die_run)

lemma yields_bindp: "(\<And>a. yields P (k a)) \<Longrightarrow> yields P (bindp m k)"
  unfolding yields_def by (auto simp: bindp_run split: prod.splits sum.splits)

lemma yields_bindp_of: "yields Q m \<Longrightarrow> (\<And>a. Q a \<Longrightarrow> yields P (k a)) \<Longrightarrow> yields P (bindp m k)"
  unfolding yields_def by (fastforce simp: bindp_run split: prod.splits sum.splits)

lemma yields_withs: "(\<And>s. yields P (f s)) \<Longrightarrow> yields P (withs f)"
  by (auto simp: yields_def withs_run)

lemmas yields_rules = yields_ret yields_die yields_bindp yields_withs

text \<open>The registers a round looks at: its own, or, when they cannot be had, the last ones.\<close>

definition regs_seen :: "stop \<Rightarrow> locals \<Rightarrow> regs option" where
  "regs_seen e l = (case getregs e of Inl err \<Rightarrow> regs_var l | Inr r \<Rightarrow> Some r)"

definition flipped :: "int \<Rightarrow> int" where
  "flipped t = (if t = 0 then 1 else 0)"

definition handled :: "locals \<Rightarrow> locals \<Rightarrow> bool" where
  "handled l l' \<longleftrightarrow>
     toggle l' = flipped (toggle l) \<and> exit_status l' = exit_status l \<and>
     (regs_var l \<noteq> None \<longrightarrow> regs_var l' \<noteq> None)"

lemma yields_handle_write: "yields (handled l) (handle_write e r l)"
proof -
  have "yields (handled l) (write_entry e r l)" if "toggle l = 0"
    using that
    by (auto simp: write_entry_def Let_def handled_def flipped_def intro!: yields_rules)
  moreover have "yields (handled l) (write_exit e r l)" if "toggle l \<noteq> 0"
    using that
    by (auto simp: write_exit_def Let_def handled_def flipped_def intro!: yields_rules)
  ultimately show ?thesis
    unfolding handle_write_def
    by (intro yields_bindp yields_bindp_of [of "handled l"]) (auto intro: yields_rules)
qed

definition next_round :: "stop \<Rightarrow> locals \<Rightarrow> locals \<Rightarrow> bool" where
  "next_round e l l' \<longleftrightarrow>
     (\<exists>r. regs_seen e l = Some r \<and> regs_var l' \<noteq> None \<and> exit_status l' = exit_status l \<and>
        toggle l' = (if orig_rax r = SYS_write then flipped (toggle l) else toggle l))"

definition round_result :: "stop \<Rightarrow> locals \<Rightarrow> locals ctl \<Rightarrow> bool" where
  "round_result e l c \<longleftrightarrow> (case c of
       Break l' \<Rightarrow> (if child_ended (wait_status e) then exit_status l' = wait_status e
                   else exit_status l' = exit_status l)
     | Next l' \<Rightarrow> \<not> child_ended (wait_status e) \<and> next_round e l l')"

lemma yields_iter: "yields (round_result e l) (ptrace_iter e l)"
proof (cases "child_ended (wait_status e)")
  case True
  then show ?thesis
    by (auto simp: ptrace_iter_def Let_def round_result_def intro!: yields_rules)
next
  case False
  let ?l = "case getregs e of Inl err \<Rightarrow> l | Inr r \<Rightarrow> l\<lparr>regs_var := Some r\<rparr>"
  have l: "regs_var ?l = regs_seen e l" "toggle ?l = toggle l" "exit_status ?l = exit_status l"
    by (simp_all add: regs_seen_def split: sum.split)
  have step: "yields (\<lambda>l'. next_round e l l')
      (if orig_rax r = SYS_write then handle_write e r ?l else ret ?l)"
    if "regs_seen e l = Some r" for r
  proof (cases "orig_rax r = SYS_write")
    case True
    have "next_round e l l'" if "handled ?l l'" for l'
      using that \<open>regs_seen e l = Some r\<close> True l by (simp add: handled_def next_round_def)
    then show ?thesis
      using yields_handle_write [of ?l e r] True by (auto simp: yields_def)
  next
    case False
    then show ?thesis using that l by (auto simp: next_round_def intro: yields_rules)
  qed
  have rest: "yields (round_result e l)
      (bindp (if orig_rax r = SYS_write then handle_write e r ?l else ret ?l) (\<lambda>l.
       bindp (guard_ptrace (PTRACE_SYSCALL 0) (syscall_err e)) (\<lambda>_. ret (Next l))))"
    if "regs_seen e l = Some r" for r
    using False by (intro yields_bindp_of [OF step [OF that]]) (auto simp: round_result_def intro!: yields_rules)
  have "yields (round_result e l) (if b then ret (Break ?l) else
      (case regs_var ?l of None \<Rightarrow> die (Fault Uninit_read) | Some r \<Rightarrow>
        bindp (if orig_rax r = SYS_write then handle_write e r ?l else ret ?l) (\<lambda>l.
        bindp (guard_ptrace (PTRACE_SYSCALL 0) (syscall_err e)) (\<lambda>_. ret (Next l)))))" for b
  proof (cases b)
    case True
    then show ?thesis using False l by (simp add: yields_ret round_result_def)
  next
    case False
    then show ?thesis
      using rest unfolding l(1) by (cases "regs_seen e l") (simp_all add: yields_die)
  qed
  with False show ?thesis
    unfolding ptrace_iter_def Let_def by (simp only: if_False) (intro yields_bindp yields_withs)
qed

lemma iter_nextD: "ptrace_iter e l s = (Inr (Next l'), s') \<Longrightarrow>
    \<not> child_ended (wait_status e) \<and> next_round e l l'"
  using yieldsD [OF yields_iter] by (fastforce simp: round_result_def)

lemma iter_breakD: "ptrace_iter e l s = (Inr (Break l'), s') \<Longrightarrow>
    exit_status l' = (if child_ended (wait_status e) then wait_status e else exit_status l)"
  using yieldsD [OF yields_iter] by (fastforce simp: round_result_def split: if_splits)

section \<open>The loop as a step relation\<close>

inductive runs_to :: "stop list \<Rightarrow> locals \<times> 'a world_scheme \<Rightarrow> locals \<times> 'a world_scheme \<Rightarrow> bool" where
  idle: "runs_to [] c c"
| round: "ptrace_iter e l s = (Inr (Next l'), s') \<Longrightarrow> runs_to es (l', s') c \<Longrightarrow>
    runs_to (e # es) (l, s) c"

inductive_cases runs_to_NilE: "runs_to [] c c'"
inductive_cases runs_to_ConsE: "runs_to (e # es) c c'"
inductive_simps runs_to_Nil [simp]: "runs_to [] c c'"
inductive_simps runs_to_Cons: "runs_to (e # es) (l, s) c'"

text \<open>A stop in a write system call.\<close>

definition write_stop :: "stop \<Rightarrow> bool" where
  "write_stop e \<longleftrightarrow> (case getregs e of Inl err \<Rightarrow> False | Inr r \<Rightarrow> orig_rax r = SYS_write)"

text \<open>The step relation and the loop agree.\<close>

lemma loop_runs_to: "ptrace_loop es l s = (Inr None, s') \<longleftrightarrow> (\<exists>l'. runs_to es (l, s) (l', s'))"
proof (induction es arbitrary: l s)
  case Nil
  show ?case by (auto simp: ret_run)
next
  case (Cons e es)
  then show ?case
    by (auto simp: tracer.loop_cases runs_to_Cons simp del: ptrace_loop.simps
        split: prod.splits sum.splits ctl.splits)
qed

lemma runs_to_toggle:
  assumes "runs_to es c c'" "toggle (fst c) \<in> {0, 1}"
    and "list_all (\<lambda>e. \<not> isl (getregs e)) es"
  shows "toggle (fst c') = (toggle (fst c) + int (length (filter write_stop es))) mod 2 \<and>
    exit_status (fst c') = exit_status (fst c)"
  using assms
proof (induction rule: runs_to.induct)
  case (idle c)
  then show ?case by auto
next
  case (round e l s l' s' es c)
  obtain r where r: "getregs e = Inr r"
    using round.prems(2) by (cases "getregs e") auto
  then have "toggle l' = (if write_stop e then flipped (toggle l) else toggle l)"
    "exit_status l' = exit_status l"
    using iter_nextD [OF round.hyps(1)] by (auto simp: next_round_def regs_seen_def write_stop_def)
  then show ?case
    using round by (auto simp: flipped_def)
qed

section \<open>Two runs side by side\<close>

text \<open>
  Two programs that take states related by \<open>R\<close> to states related by \<open>R\<close>, and end alike or
  have results related by \<open>P\<close>.
\<close>

definition matches ::
  "('s \<Rightarrow> 's \<Rightarrow> bool) \<Rightarrow> ('a \<Rightarrow> 'b \<Rightarrow> bool) \<Rightarrow> ('s, 'a) prog \<Rightarrow> ('s, 'b) prog \<Rightarrow> bool" where
  "matches R P m m' \<longleftrightarrow>
     (\<forall>s s'. R s s' \<longrightarrow> R (snd (m s)) (snd (m' s')) \<and> rel_sum (=) P (fst (m s)) (fst (m' s')))"

lemma matchesD:
  "matches R P m m' \<Longrightarrow> R s s' \<Longrightarrow>
   R (snd (m s)) (snd (m' s')) \<and> rel_sum (=) P (fst (m s)) (fst (m' s'))"
  by (simp add: matches_def)

lemma matches_ret: "P a b \<Longrightarrow> matches R P (ret a) (ret b)"
  by (simp add: matches_def ret_run)

lemma matches_die: "matches R P (die h) (die h)"
  by (simp add: matches_def die_run)

lemma matches_withs: "(\<And>s s'. R s s' \<Longrightarrow> matches R P (f s) (g s')) \<Longrightarrow> matches R P (withs f) (withs g)"
  by (simp add: matches_def withs_run)

lemma matches_upd: "(\<And>s s'. R s s' \<Longrightarrow> R (f s) (g s')) \<Longrightarrow> matches R (=) (upd f) (upd g)"
  by (simp add: matches_def upd_run)

lemma matches_same: "(\<And>a. P a a) \<Longrightarrow> matches (=) P m m"
  by (auto simp: matches_def intro: sum.rel_refl)

lemma matches_bindp:
  assumes "matches R Q m m'" "\<And>a b. Q a b \<Longrightarrow> matches R P (k a) (k' b)"
  shows "matches R P (bindp m k) (bindp m' k')"
  unfolding matches_def
proof (intro allI impI)
  fix s s'
  assume "R s s'"
  note m = matchesD [OF assms(1) this]
  show "R (snd (bindp m k s)) (snd (bindp m' k' s')) \<and>
      rel_sum (=) P (fst (bindp m k s)) (fst (bindp m' k' s'))"
    using m assms(2)
    by (cases "m s"; cases "m' s'"; cases "fst (m s)"; cases "fst (m' s')")
      (auto simp: bindp_run matches_def)
qed

section \<open>Uninitialised local variables\<close>

text \<open>
  Locals that differ at most in \<open>wfd\<close>, \<open>waddr\<close> and \<open>wlen\<close>, and in these only while no write
  is under way.
\<close>

definition agree :: "locals \<Rightarrow> locals \<Rightarrow> bool" where
  "agree l l' \<longleftrightarrow>
     exit_status l' = exit_status l \<and> toggle l' = toggle l \<and> regs_var l' = regs_var l \<and>
     (toggle l \<noteq> 0 \<longrightarrow> l' = l)"

fun agree_ctl :: "locals ctl \<Rightarrow> locals ctl \<Rightarrow> bool" where
  "agree_ctl (Break l) (Break l') \<longleftrightarrow> exit_status l' = exit_status l"
| "agree_ctl (Next l) (Next l') \<longleftrightarrow> agree l l'"
| "agree_ctl _ _ \<longleftrightarrow> False"

lemma agree_handle_write:
  assumes "agree l l'"
  shows "handle_write e r l = (handle_write e r l' :: ('a world_scheme, locals) prog)"
proof (cases "toggle l = 0")
  case True
  then have "l\<lparr>toggle := 1, wfd := i, waddr := a, wlen := n\<rparr> =
      l'\<lparr>toggle := 1, wfd := i, waddr := a, wlen := n\<rparr>" for i a n
    using assms by (cases l; cases l') (simp add: agree_def)
  then have "write_entry e r l = (write_entry e r l' :: ('a world_scheme, locals) prog)"
    by (simp add: write_entry_def Let_def)
  with True assms show ?thesis by (simp add: handle_write_def agree_def)
next
  case False
  with assms show ?thesis by (simp add: agree_def)
qed

lemma agree_iter:
  assumes "agree l l'"
  shows "matches (=) agree_ctl (ptrace_iter e l :: ('a world_scheme, _) prog) (ptrace_iter e l')"
proof (cases "child_ended (wait_status e)")
  case True
  then show ?thesis
    by (auto simp: ptrace_iter_def Let_def intro!: matches_bindp [where Q = "(=)"] matches_same matches_ret)
next
  case False
  let ?l = "case getregs e of Inl err \<Rightarrow> l | Inr r \<Rightarrow> l\<lparr>regs_var := Some r\<rparr>"
  let ?l' = "case getregs e of Inl err \<Rightarrow> l' | Inr r \<Rightarrow> l'\<lparr>regs_var := Some r\<rparr>"
  have l: "agree ?l ?l'" using assms by (simp add: agree_def split: sum.split)
  have rest: "matches (=) agree_ctl
      (bindp (if orig_rax r = SYS_write then handle_write e r ?l else ret ?l) (\<lambda>l.
       bindp (guard_ptrace (PTRACE_SYSCALL 0) (syscall_err e)) (\<lambda>_. ret (Next l))))
      (bindp (if orig_rax r = SYS_write then handle_write e r ?l' else ret ?l') (\<lambda>l.
       bindp (guard_ptrace (PTRACE_SYSCALL 0) (syscall_err e)) (\<lambda>_. ret (Next l)))
        :: ('a world_scheme, _) prog)" for r
    using l unfolding agree_handle_write [OF l]
    by (intro matches_bindp [where Q = agree] matches_bindp [where Q = "(=)"])
      (auto intro: matches_same matches_ret simp: agree_def)
  have "regs_var ?l' = regs_var ?l" "exit_status ?l' = exit_status ?l"
    using l by (simp_all add: agree_def)
  then show ?thesis
    using False rest unfolding ptrace_iter_def Let_def
    by (simp only: if_False)
      (intro matches_bindp [where Q = "(=)"] matches_withs;
        auto intro: matches_same matches_ret matches_die split: option.split)
qed

lemma agree_loop:
  "agree l l' \<Longrightarrow>
   matches (=) (rel_option (\<lambda>l l'. exit_status l' = exit_status l)) (ptrace_loop es l) (ptrace_loop es l')"
proof (induction es arbitrary: l l')
  case Nil
  then show ?case by (simp add: matches_ret)
next
  case (Cons e es)
  show ?case
    unfolding ptrace_loop.simps
    by (rule matches_bindp [OF agree_iter [OF Cons.prems]])
      (erule agree_ctl.elims; auto intro: matches_ret Cons.IH)
qed

section \<open>Properties\<close>

text \<open>
  C16: whatever the kernel, the child and \<open>fork\<close> do, a run never takes back output or a
  request already made, leaves the marks, the options and the set of open files as they are,
  and keeps \<open>cur_fd\<close> to -1, 1 or 2.
\<close>

theorem run_steady:
  fixes s :: "'a world_scheme"
  assumes "cur_fd s \<in> {-1, 1, 2}"
  shows "prefix (written s) (written (snd (errmark_run_program fk s))) \<and>
    prefix (requests s) (requests (snd (errmark_run_program fk s))) \<and>
    settings (snd (errmark_run_program fk s)) = settings s \<and>
    cmd_options (cmd (snd (errmark_run_program fk s))) = cmd_options (cmd s) \<and>
    cur_fd (snd (errmark_run_program fk s)) \<in> {-1, 1, 2} \<and>
    mark_state (cmd (snd (errmark_run_program fk s))) \<in> {0, 1}"
proof -
  let ?s = "upd_cmd (\<lambda>c. c\<lparr>mark_state := 0, child_exited := False\<rparr>) s"
  have "keeps (steady :: 'a world_scheme \<Rightarrow> _) (case fk of
      In_child traceme_err exec \<Rightarrow> bindp (upd (upd_cmd (\<lambda>c. c\<lparr>child := 0\<rparr>))) (\<lambda>_. run_child traceme_err exec)
    | In_parent pid es \<Rightarrow> bindp (upd (upd_cmd (\<lambda>c. c\<lparr>child := pid\<rparr>))) (\<lambda>_. run_parent es))"
    (is "keeps steady ?prog")
    by (auto simp: cmd_options_def intro!: steady_rules steady_upd steady_upd_cmd split: forked.split)
  then have "steady ?s (snd (?prog ?s))"
    unfolding keeps_def by (rule spec)
  then have run: "steady ?s (snd (errmark_run_program fk s))"
    by (simp add: errmark_run_program_def)
  moreover define t where "t = snd (errmark_run_program fk s)"
  moreover define s0 where "s0 = ?s"
  ultimately have t: "steady s0 t" by simp
  have s0: "start1 s0 = start1 s" "end1 s0 = end1 s" "start2 s0 = start2 s" "end2 s0 = end2 s"
    "opened s0 = opened s" "drain s0 = drain s" "clib s0 = clib s" "errprint_fh s0 = errprint_fh s" "written s0 = written s" "requests s0 = requests s" "cur_fd s0 = cur_fd s"
    "mark_state (cmd s0) = 0" and opts: "cmd_options (cmd s0) = cmd_options (cmd s)"
    by (simp_all add: s0_def upd_cmd_def cmd_options_def)
  have same: "cmd_options (cmd t) = cmd_options (cmd s)"
    using t opts by (simp add: steady_def)
  have "copy_fh c = copy_fh (cmd_options c)" "cverbose c = cverbose (cmd_options c)"
    "cmd_name c = cmd_name (cmd_options c)" for c
    by (simp_all add: cmd_options_def)
  with same have "copy_fh (cmd t) = copy_fh (cmd s)" "cverbose (cmd t) = cverbose (cmd s)"
    "cmd_name (cmd t) = cmd_name (cmd s)"
    by metis+
  moreover have "start1 t = start1 s" "end1 t = end1 s" "start2 t = start2 s" "end2 t = end2 s"
    "opened t = opened s" "drain t = drain s" "clib t = clib s" "errprint_fh t = errprint_fh s"
    "prefix (written s) (written t)" "prefix (requests s) (requests t)"
    and marker: "stays_in {-1, 1, 2} (cur_fd s) (cur_fd t)" "stays_in {0, 1} 0 (mark_state (cmd t))"
    using t s0 by (simp_all add: steady_def)
  moreover have "cur_fd t \<in> {-1, 1, 2}" "mark_state (cmd t) \<in> {0, 1}"
    using marker assms unfolding stays_in_def by blast+
  ultimately show ?thesis
    unfolding t_def [symmetric] using same by (simp add: settings_def)
qed

theorem run_steady_witness:
  "prefix [] (written (snd (errmark_run_program (In_child 0 (\<lambda>_ _. Some (-1, 2))) init_world))) \<and>
   cur_fd (snd (errmark_run_program (In_parent 7 [demo_exit]) init_world)) \<in> {-1, 1, 2}"
  using run_steady [of init_world "In_parent 7 [demo_exit]"]
    run_steady [of init_world "In_child 0 (\<lambda>_ _. Some (-1, 2))"]
  by (simp add: init_states)

text \<open>
  C18: \<open>toggle\<close> is the parity of the stops with the number of \<open>write\<close> among those seen, and
  the loop's \<open>exit_status\<close> stays 0 while it runs: a write's stops are told apart by their
  number alone.
\<close>

theorem toggle_parity:
  assumes "runs_to es (init_locals, s) (l', s')" and "list_all (\<lambda>e. \<not> isl (getregs e)) es"
  shows "toggle l' = int (length (filter write_stop es) mod 2) \<and> exit_status l' = 0"
  using runs_to_toggle [OF assms(1) _ assms(2)] by (simp add: init_locals_def zmod_int)

theorem toggle_parity_witness:
  "\<exists>l' s'. runs_to [round 0x57f (demo_regs 1) low_page (\<lambda>n. Some (replicate (unat n) CHR ''.''))]
     (init_locals, demo_world) (l', s') \<and> toggle l' = 1"
proof -
  have "proper (Write (demo_regs 1) (demo_regs 1) low_page (\<lambda>n. Some (replicate (unat n) CHR ''.'')))"
    using demo_ok(3) by (simp add: demo_run_def)
  from iter_entry [OF demo_ok(1) this _ trap_status(1), of init_locals] obtain l' s' where
    "ptrace_iter (round 0x57f (demo_regs 1) low_page (\<lambda>n. Some (replicate (unat n) CHR ''.'')))
       init_locals demo_world = (Inr (Next l'), s')"
    by (auto simp: init_locals_def)
  then have "runs_to [round 0x57f (demo_regs 1) low_page (\<lambda>n. Some (replicate (unat n) CHR ''.''))]
      (init_locals, demo_world) (l', s')"
    by (simp add: runs_to_Cons)
  with toggle_parity [OF this] show ?thesis
    by (auto simp: round_def write_stop_def demo_regs_def SYS_write_def)
qed

text \<open>A run ends at the latest with a round that reports the child's end.\<close>

lemma loop_ended:
  fixes s :: "'a world_scheme"
  assumes "list_ex (\<lambda>e. child_ended (wait_status e)) es"
  shows "fst (ptrace_loop es l s) \<noteq> Inr None"
proof -
  obtain e where e: "e \<in> set es" "child_ended (wait_status e)"
    using assms by (auto simp: list_ex_iff)
  have "ptrace_iter e l s \<noteq> (Inr (Next l'), s')" for l l' and s s' :: "'a world_scheme"
    using iter_nextD [of e l s l' s'] e(2) by blast
  then show ?thesis by (rule tracer.loop_ends [OF _ e(1)])
qed

lemma run_ends:
  fixes s :: "'a world_scheme"
  assumes "list_ex (\<lambda>e. child_ended (wait_status e)) es"
  shows "fst (errmark_run_program (In_parent pid es) s) \<noteq> Inr None"
proof -
  have "fst (ptrace_cmd es s) \<noteq> Inr None" for s :: "'a world_scheme"
    using loop_ended [OF assms, of init_locals s]
    by (auto simp: ptrace_cmd_def bindp_run ret_run split: prod.split sum.split option.split)
  then have "fst (run_parent es s) \<noteq> Inr None" for s :: "'a world_scheme"
    unfolding run_parent_def bindp_run
    by (auto simp: ret_run withs_run split: prod.split sum.split option.split)
      (metis fst_conv)+
  then show ?thesis by (simp add: errmark_run_program_def)
qed

text \<open>
  C15: the run ends (returns, exits, aborts or faults; it does not wait for ever) as soon as a
  round reports that the child ended, whatever the rounds before it; and then the rounds after
  make no difference.
\<close>

theorem run_returns:
  assumes "list_ex (\<lambda>e. child_ended (wait_status e)) es"
  shows "fst (errmark_run_program (In_parent pid es) s) \<noteq> Inr None \<and>
    errmark_run_program (In_parent pid (es @ fs)) s = errmark_run_program (In_parent pid es) s"
proof -
  have stable: "ptrace_loop (es @ fs) l s = ptrace_loop es l s" for l and s :: "'a world_scheme"
    using loop_ended [OF assms] by (metis prod.collapse tracer.loop_stable)
  have "ptrace_cmd (es @ fs) = (ptrace_cmd es :: ('a world_scheme, int option) prog)"
    by (rule ext) (simp add: ptrace_cmd_def bindp_run stable)
  then have "run_parent (es @ fs) = (run_parent es :: ('a world_scheme, int option) prog)"
    by (simp add: run_parent_def)
  then show ?thesis using run_ends [OF assms] by (simp add: errmark_run_program_def)
qed

theorem run_returns_witness:
  "fst (errmark_run_program (In_parent 7 [demo_exit]) init_world) \<noteq> Inr None \<and>
   errmark_run_program (In_parent 7 ([demo_exit] @ [demo_exit])) init_world =
     errmark_run_program (In_parent 7 [demo_exit]) init_world"
  using run_returns [of "[demo_exit]" 7 init_world "[demo_exit]"] demo_ok(4) by simp

text \<open>
  What a run returns is 0 or the status of a round that reported the child's end. It is 0
  only when a request failed because the child was gone.
\<close>

lemma run_status:
  assumes "errmark_run_program (In_parent pid es) s = (Inr (Some st), s')"
  shows "st = 0 \<or> (st \<in> wait_status ` set es \<and> child_ended st)"
proof -
  let ?ok = "\<lambda>st. st = 0 \<or> (st \<in> wait_status ` set es \<and> child_ended st)"
  have loop: "?ok (exit_status l)" if "ptrace_loop es init_locals s = (Inr (Some l), s')"
    for l and s s' :: "'a world_scheme"
  proof (rule tracer.loop_rule [OF _ _ _ that])
    show "exit_status init_locals = 0" by (simp add: init_locals_def)
  next
    fix e l l' and s s' :: "'a world_scheme"
    show "exit_status l = 0 \<Longrightarrow> ptrace_iter e l s = (Inr (Next l'), s') \<Longrightarrow> exit_status l' = 0"
      by (auto dest!: iter_nextD simp: next_round_def)
    show "e \<in> set es \<Longrightarrow> exit_status l = 0 \<Longrightarrow> ptrace_iter e l s = (Inr (Break l'), s') \<Longrightarrow>
        ?ok (exit_status l')"
      by (auto dest!: iter_breakD)
  qed
  have cmd: "?ok n" if "ptrace_cmd es s = (Inr (Some n), s')" for n and s s' :: "'a world_scheme"
    using that loop
    by (fastforce simp: ptrace_cmd_def bindp_run ret_run split: prod.splits sum.splits option.splits)
  have step: "close_marks t = (Inr (), close_step t)" for t :: "'a world_scheme"
    by (rule close_marks_step)
  have "?ok n" if "run_parent es s = (Inr (Some n), s')" for n and s s' :: "'a world_scheme"
    using that
    by (auto simp: run_parent_def bindp_run ret_run withs_run upd_run step close_step_frame upd_cmd_frame
        split: prod.splits sum.splits option.splits dest!: cmd)
  then show ?thesis
    using assms by (simp add: errmark_run_program_def)
qed

text \<open>
  Which statuses end the tracing: all but 0 and the stops by \<open>SIGTRAP\<close> and
  \<open>SIGCHLD\<close>. So a stop by any other signal, which the child may well survive, is taken for
  its end, and an exit with status 0 is not seen here.
\<close>

lemma child_ended_classes:
  "child_ended status \<longleftrightarrow> status \<noteq> 0 \<and> wait_class_of status \<notin> {Stopped 5, Stopped 17}"
proof -
  have "WIFSTOPPED status \<Longrightarrow> wait_class_of status = Stopped (WSTOPSIG status)"
    "\<not> WIFSTOPPED status \<Longrightarrow> wait_class_of status \<noteq> Stopped n" for n
    using wait_class_macros [of status] by (auto split: if_splits)
  then show ?thesis
    by (cases "WIFSTOPPED status") (simp_all add: child_ended_def SIGTRAP_def SIGCHLD_def)
qed

text \<open>
  C24: \<open>fork\<close> is not checked. If it fails, the parent waits for no child and asks for the
  registers of no process; since no request succeeded before, this failure is not taken for
  the child's end, and registers are read that were never set.
\<close>

theorem fork_failure_reads_unset:
  assumes "trace_fbt (cmd s) = None" "\<not> cverbose (cmd s)" "gone e"
  shows "fst (errmark_run_program (In_parent (-1) (e # es)) s) = Inl (Fault Uninit_read)"
proof -
  define s1 where "s1 = begin_run (-1) s"
  have s1: "trace_fbt (cmd s1) = None" "\<not> cverbose (cmd s1)" "\<not> child_exited (cmd s1)"
    using assms(1,2) by (simp_all add: s1_def begin_run_def frame_simps)
  have "\<not> child_ended 0" by (simp add: child_ended_def)
  with s1 assms(3) have "ptrace_iter e init_locals s1 =
      (Inl (Fault Uninit_read), log_request PTRACE_GETREGS s1)"
    by (simp add: ptrace_iter_def gone_def Let_def bindp_run withs_run guard_ptrace_esrch
        frame_simps die_run init_locals_def)
  then have "fst (run_parent (e # es) s1) = Inl (Fault Uninit_read)"
    using s1 by (simp add: run_parent_def ptrace_cmd_def bindp_run withs_run whenp_run)
  then show ?thesis
    by (simp add: errmark_run_program_def s1_def begin_run_def)
qed

theorem fork_failure_reads_unset_witness:
  "fst (errmark_run_program (In_parent (-1) [demo_exit\<lparr>wait_status := 0, getregs := Inl ESRCH\<rparr>])
     init_world) = Inl (Fault Uninit_read)"
  by (rule fork_failure_reads_unset) (simp_all add: init_states gone_def)

text \<open>
  The locals that C leaves unset before the loop, \<open>wfd\<close>, \<open>waddr\<close> and \<open>wlen\<close>, have no
  influence: with any values in them the loop does the same and ends with the same status.
\<close>

lemma unset_locals_unused:
  "snd (ptrace_loop es (init_locals\<lparr>wfd := i, waddr := a, wlen := n\<rparr>) s) =
     snd (ptrace_loop es init_locals s) \<and>
   map_sum id (map_option exit_status)
     (fst (ptrace_loop es (init_locals\<lparr>wfd := i, waddr := a, wlen := n\<rparr>) s)) =
   map_sum id (map_option exit_status) (fst (ptrace_loop es init_locals s))"
proof -
  have agree: "agree init_locals (init_locals\<lparr>wfd := i, waddr := a, wlen := n\<rparr>)"
    by (simp add: agree_def init_locals_def)
  have eq: "map_sum id (map_option exit_status) y = map_sum id (map_option exit_status) x"
    if "rel_sum (=) (rel_option (\<lambda>l l'. exit_status l' = exit_status l)) x y"
    for x y :: "halt + locals option"
    using that by (cases x; cases y) (auto simp: option_rel_Some1 elim: option.rel_cases)
  from agree_loop [OF agree, where es = es] eq show ?thesis
    unfolding matches_def by metis
qed

text \<open>
  C9: a write to descriptor 1 or 2 whatever the memory of the child. The tracer shows the bytes
  it can fetch and tells the child that all were written, also when it could fetch none, where
  the kernel would have told it \<open>EFAULT\<close>. With a file to copy to, the bytes it could not fetch
  are shown and copied as what the memory from \<open>malloc\<close> happens to hold.
\<close>

theorem any_write:
  assumes "plain s" "toggle l = 0" "orig_rax e = SYS_write" "orig_rax x = SYS_write"
    and "marked_fd (to_int (rdi e))" "rsi e \<noteq> 0" "rdx e \<noteq> -1"
    and "copying (to_int (rdi e)) s \<Longrightarrow> map_option length (hp (rdx e)) = Some (unat (rdx e))"
    and "d = shown_data (copying (to_int (rdi e)) s) mem hp (rsi e) (rdx e)"
  shows "\<exists>l' s'. ptrace_loop (rounds (Write e x mem hp) @ es) l s = ptrace_loop es l' s' \<and>
    toggle l' = 0 \<and>
    tty_flow s' = tty_flow s @ marked (start_text s) (end_text s) (open_fd s) [(to_int (rdi e), d)] \<and>
    flow (Opened p) s' = flow (Opened p) s @
      (if copy_fh (cmd s) = Some (Opened p) \<and> to_int (rdi e) = 2 then d else []) \<and>
    requests s' = requests s @ requests_of (Write e x mem hp)"
proof -
  from iter_entry_any [OF assms(1,3,2) trap_status(1) assms(5-9)] obtain l1 s1 where
    "ptrace_iter (round 0x57f e mem hp) l s = (Inr (Next l1), s1)" "toggle l1 = 1"
    "wfd l1 = to_int (rdi e)" "wlen l1 = rdx e" "exit_status l1 = exit_status l"
    "produced [(to_int (rdi e), d)] (entry_requests e) s s1" by blast
  from loop_write_stops [OF this assms(4), of es] obtain l' s' where
    "ptrace_loop (rounds (Write e x mem hp) @ es) l s = ptrace_loop es l' s'" "toggle l' = 0"
    "produced [(to_int (rdi e), d)] (requests_of (Write e x mem hp)) s s'" by blast
  then show ?thesis
    by (intro exI [of _ l'] exI [of _ s']) (simp add: produced_def stderr_data_def del: marked.simps)
qed

text \<open>Nothing of the buffer can be read: what \<open>malloc\<close> gave, \<open>old\<close>, is shown and copied.\<close>

theorem any_write_witness:
  "\<exists>l' s'. ptrace_loop (rounds (Write (demo_regs 1) (demo_regs 1) \<lparr>byte_at = (\<lambda>_. None), peek_error = Peek_EFAULT\<rparr> (\<lambda>_. Some ''old'')))
      init_locals demo_world = ptrace_loop [] l' s' \<and>
    tty_flow s' = ''<old'' \<and> flow (Opened ''errs'') s' = ''old'' \<and>
    requests s' = requests demo_world @
      requests_of (Write (demo_regs 1) (demo_regs 1) \<lparr>byte_at = (\<lambda>_. None), peek_error = Peek_EFAULT\<rparr> (\<lambda>_. Some ''old''))"
proof -
  have "read_mem \<lparr>byte_at = (\<lambda>_. None), peek_error = Peek_EFAULT\<rparr> a 8 = None" for a :: u64
    by (simp add: eval_nat_numeral)
  then have d: "shown_data (copying (to_int (rdi (demo_regs 1))) demo_world) \<lparr>byte_at = (\<lambda>_. None), peek_error = Peek_EFAULT\<rparr> (\<lambda>_. Some ''old'')
      (rsi (demo_regs 1)) (rdx (demo_regs 1)) = ''old''"
    by (simp add: shown_data_def copying_def demo_regs_def to_int_def demo_world_def fetch_def)
  note any_write [OF demo_ok(1), where l = init_locals and e = "demo_regs 1" and x = "demo_regs 1"
      and hp = "\<lambda>_. Some ''old''" and mem = "\<lparr>byte_at = (\<lambda>_. None), peek_error = Peek_EFAULT\<rparr>" and p = "''errs''" and es = "[]",
      OF _ _ _ _ _ _ _ d [symmetric]]
  then show ?thesis
    by (auto simp: init_locals_def demo_regs_def SYS_write_def marked_fd_def to_int_def
        simp del: ptrace_loop.simps rounds.simps requests_of.simps)
      (auto simp: demo_world_def open_fd_def start_mark_def end_mark_def init_states tty_flow_def tty_def
        flow_def content_def simp del: ptrace_loop.simps rounds.simps requests_of.simps)
qed

text \<open>
  C25: a stop by \<open>SIGCHLD\<close> while the registers show a \<open>write\<close> counts as the start of a
  write. The next real write's start then counts as its end: the data of that write are not
  shown by the tracer, and its length is not set to 0.
\<close>

theorem sigchld_hides_next_write:
  assumes "plain s" "toggle l = 0" "proper (Write r x mem hp)" "orig_rax e = SYS_write"
  shows "\<exists>l' s'. ptrace_loop (round 0x117f r mem hp # round 0x57f e mem' hp' # es) l s =
      ptrace_loop es l' s' \<and> toggle l' = 0 \<and>
    tty_flow s' = tty_flow s @ marked (start_text s) (end_text s) (open_fd s) (writes_of (Write r x mem hp)) \<and>
    drop (length (requests s')  - 2) (requests s') =
      [PTRACE_SETREGS (if marked_fd (to_int (rdi r)) then e\<lparr>rax := rdx r\<rparr> else e), PTRACE_SYSCALL 0]"
proof -
  from iter_entry [OF assms(1,3,2) trap_status(2)] obtain l1 s1 qs where
    one: "ptrace_iter (round 0x117f r mem hp) l s = (Inr (Next l1), s1)" "toggle l1 = 1"
      "wfd l1 = to_int (rdi r)" "wlen l1 = rdx r" and
    p1: "produced (writes_of (Write r x mem hp)) qs s s1"
    by blast
  from iter_exit [OF produced_plain [OF p1] assms(4) one(2), of mem' hp'] obtain l2 s2 where
    two: "ptrace_iter (round 0x57f e mem' hp') l1 s1 = (Inr (Next l2), s2)" "toggle l2 = 0" and
    p2: "produced [] [PTRACE_GETREGS,
      PTRACE_SETREGS (if marked_fd (wfd l1) then e\<lparr>rax := wlen l1\<rparr> else e), PTRACE_SYSCALL 0] s1 s2"
    by blast
  have "ptrace_loop (round 0x117f r mem hp # round 0x57f e mem' hp' # es) l s = ptrace_loop es l2 s2"
    using one(1) two(1) by (simp only: loop_next)
  moreover note produced_trans [OF p1 p2, unfolded produced_def]
  ultimately show ?thesis
    using two(2) one by (intro exI [of _ l2] exI [of _ s2]) (simp del: ptrace_loop.simps writes_of.simps)
qed

theorem sigchld_hides_next_write_witness:
  "\<exists>l' s'. ptrace_loop [round 0x117f ((demo_regs 1)\<lparr>rdx := 0, rsi := 64\<rparr>) low_page (\<lambda>n. Some []),
      round 0x57f (demo_regs 1) low_page (\<lambda>n. None)] init_locals demo_world = ptrace_loop [] l' s' \<and>
    toggle l' = 0 \<and> tty_flow s' = ''<'' \<and>
    drop (length (requests s') - 2) (requests s') =
      [PTRACE_SETREGS ((demo_regs 1)\<lparr>rax := 0\<rparr>), PTRACE_SYSCALL 0]"
proof -
  have proper: "proper (Write ((demo_regs 1)\<lparr>rdx := 0, rsi := 64\<rparr>) (demo_regs 1) low_page (\<lambda>n. Some []))"
    using word_mapped_low_page by (simp add: demo_regs_def SYS_write_def readable_def)
  from sigchld_hides_next_write [OF demo_ok(1) _ proper, of init_locals "demo_regs 1" low_page
      "\<lambda>n. None" "[]"]
  show ?thesis
    by (simp add: demo_regs_def SYS_write_def init_locals_def marked_fd_def to_int_def del: ptrace_loop.simps)
      (simp add: demo_world_def open_fd_def start_mark_def end_mark_def init_states tty_flow_def tty_def
        del: ptrace_loop.simps)
qed

end
