(* ===== verification/Getopt.thy ===== *)
theory Getopt
  imports Prelude "HOL-Library.Sublist"
begin

text \<open>
  What \<open>main\<close> uses of \<open>getopt_long\<close> of the GNU C library: with \<open>opterr\<close> 0 (no messages),
  an option string that starts with \<open>+\<close> (the options end at the first argument that is not
  one) and has no options with arguments, and long options whose \<open>flag\<close> is null.

  The record is the set of the library's variables. A long option may be abbreviated to any
  prefix that is an option's name or that options of one value only share. The lemmas give
  the result of a call on each form of argument, and show that every call that returns an
  option makes progress.
\<close>

section \<open>State\<close>

datatype has_arg = No_argument | Required_argument

record long_option =
  lname :: string
  larg :: has_arg
  lval :: int

text \<open>\<open>nextchar\<close> is what is left of an argument with several short options.\<close>

record getopt =
  optind :: nat
  nextchar :: string
  optarg :: "string option"
  optopt :: int
  option_index :: nat

definition init_getopt :: getopt where
  "init_getopt = \<lparr>optind = 1, nextchar = [], optarg = None, optopt = 63, option_index = 0\<rparr>"

section \<open>Long options\<close>

text \<open>The option a name stands for: an exact match, or else the match of an abbreviation.\<close>

datatype found = Unknown | Ambiguous | Found nat

definition abbreviates :: "string \<Rightarrow> (nat \<times> long_option) \<Rightarrow> bool" where
  "abbreviates nm p = prefix nm (lname (snd p))"

definition same_option :: "long_option \<Rightarrow> long_option \<Rightarrow> bool" where
  "same_option p q \<longleftrightarrow> larg p = larg q \<and> lval p = lval q"

definition find_long :: "long_option list \<Rightarrow> string \<Rightarrow> found" where
  "find_long table nm =
     (case filter (\<lambda>p. lname (snd p) = nm) (enumerate 0 table) of
        (i, p) # ps \<Rightarrow> Found i
      | [] \<Rightarrow>
         (case filter (abbreviates nm) (enumerate 0 table) of
            [] \<Rightarrow> Unknown
          | (i, p) # ps \<Rightarrow> (if list_all (\<lambda>q. same_option p (snd q)) ps then Found i else Ambiguous)))"

text \<open>\<open>str\<close> is the argument after its two dashes; the result \<open>?\<close> (63) is an error.\<close>

definition long_opt :: "long_option list \<Rightarrow> string list \<Rightarrow> string \<Rightarrow> getopt \<Rightarrow> int \<times> getopt" where
  "long_opt table argv str g =
     (let nm = takeWhile (\<lambda>c. c \<noteq> CHR ''='') str; rest = drop (length nm) str;
          g = g\<lparr>optind := Suc (optind g), nextchar := []\<rparr> in
      case find_long table nm of
        Found i \<Rightarrow>
          (let p = table ! i in
           if rest \<noteq> [] then
             (if larg p = Required_argument
              then (lval p, g\<lparr>optarg := Some (tl rest), option_index := i\<rparr>)
              else (63, g\<lparr>optopt := lval p\<rparr>))
           else if larg p = Required_argument then
             (if optind g < length argv
              then (lval p, g\<lparr>optarg := Some (argv ! optind g), optind := Suc (optind g),
                      option_index := i\<rparr>)
              else (63, g\<lparr>optopt := lval p\<rparr>))
           else (lval p, g\<lparr>option_index := i\<rparr>))
      | _ \<Rightarrow> (63, g\<lparr>optopt := 0\<rparr>))"

section \<open>Short options\<close>

definition short_opt :: "string \<Rightarrow> getopt \<Rightarrow> int \<times> getopt" where
  "short_opt letters g =
     (case nextchar g of
        [] \<Rightarrow> (-1, g)
      | c # rest \<Rightarrow>
         (let g = g\<lparr>nextchar := rest, optind := (if rest = [] then Suc (optind g) else optind g)\<rparr> in
          if c \<notin> set letters \<or> c = CHR '':'' \<or> c = CHR '';'' then (63, g\<lparr>optopt := schar c\<rparr>)
          else (schar c, g)))"

section \<open>The next option\<close>

text \<open>\<open>letters\<close> is the option string without its \<open>+\<close>.\<close>

definition getopt_long ::
  "string \<Rightarrow> long_option list \<Rightarrow> string list \<Rightarrow> getopt \<Rightarrow> int \<times> getopt" where
  "getopt_long letters table argv g =
     (if argv = [] then (-1, g)
      else
        let g = g\<lparr>optarg := None\<rparr> in
        if nextchar g \<noteq> [] then short_opt letters g
        else if length argv \<le> optind g then (-1, g)
        else
          let arg = argv ! optind g in
          if arg = ''--'' then (-1, g\<lparr>optind := Suc (optind g)\<rparr>)
          else if take 1 arg \<noteq> ''-'' \<or> length arg = 1 then (-1, g)
          else if take 2 arg = ''--'' then long_opt table argv (drop 2 arg) g
          else short_opt letters (g\<lparr>nextchar := drop 1 arg\<rparr>))"

section \<open>Progress\<close>

text \<open>The characters not yet looked at, with one more for each argument.\<close>

definition args_left :: "string list \<Rightarrow> getopt \<Rightarrow> nat" where
  "args_left argv g =
     length (nextchar g) +
     (\<Sum>a \<leftarrow> drop (if nextchar g = [] then optind g else Suc (optind g)) argv. Suc (length a))"

lemma args_left_Suc:
  "i < length argv \<Longrightarrow>
   (\<Sum>a \<leftarrow> drop i argv. Suc (length a)) =
     Suc (length (argv ! i)) + (\<Sum>a \<leftarrow> drop (Suc i) argv. Suc (length a))"
  by (simp add: Cons_nth_drop_Suc [symmetric])

lemma args_left_mono:
  "(\<Sum>a \<leftarrow> drop (Suc i) argv. Suc (length a)) \<le> (\<Sum>a \<leftarrow> drop i argv. Suc (length a))"
proof (cases "i < length argv")
  case True
  then show ?thesis by (simp add: args_left_Suc)
qed simp

lemma short_opt_progress:
  "short_opt letters g = (r, g') \<Longrightarrow> nextchar g \<noteq> [] \<Longrightarrow> args_left argv g' < args_left argv g"
  by (cases "nextchar g") (auto simp: short_opt_def args_left_def Let_def split: if_splits)

lemma long_opt_progress:
  assumes "long_opt table argv str g = (r, g')" "nextchar g = []" "optind g < length argv"
  shows "args_left argv g' < args_left argv g"
proof -
  have "nextchar g' = []" "optind g' = Suc (optind g) \<or> optind g' = Suc (Suc (optind g))"
    using assms(1) by (auto simp: long_opt_def Let_def split: found.splits if_splits)
  then show ?thesis
    using assms(2,3) args_left_mono [of "Suc (optind g)" argv]
    by (auto simp: args_left_def args_left_Suc)
qed

lemma getopt_progress:
  assumes "getopt_long letters table argv g = (r, g')" "r \<noteq> -1"
  shows "args_left argv g' < args_left argv g"
proof -
  let ?g = "g\<lparr>optarg := None\<rparr>"
  have left: "args_left argv ?g = args_left argv g" by (simp add: args_left_def)
  show ?thesis
  proof (cases "nextchar g = []")
    case False
    then show ?thesis
      using assms short_opt_progress [of letters ?g r g' argv] left
      by (auto simp: getopt_long_def Let_def split: if_splits)
  next
    case True
    let ?arg = "argv ! optind g"
    from assms True have len: "optind g < length argv" and
      *: "long_opt table argv (drop 2 ?arg) ?g = (r, g') \<or>
       (take 1 ?arg = ''-'' \<and> length ?arg \<noteq> 1 \<and>
        short_opt letters (?g\<lparr>nextchar := drop 1 ?arg\<rparr>) = (r, g'))"
      by (auto simp: getopt_long_def Let_def split: if_splits)
    from * show ?thesis
    proof
      assume "long_opt table argv (drop 2 ?arg) ?g = (r, g')"
      then show ?thesis using long_opt_progress [of table argv _ ?g r g'] len True left by simp
    next
      assume s: "take 1 ?arg = ''-'' \<and> length ?arg \<noteq> 1 \<and>
        short_opt letters (?g\<lparr>nextchar := drop 1 ?arg\<rparr>) = (r, g')"
      then obtain c rest where arg: "?arg = CHR ''-'' # c # rest"
        by (cases ?arg; cases "tl ?arg") auto
      with s have "args_left argv g' < args_left argv (?g\<lparr>nextchar := drop 1 ?arg\<rparr>)"
        by (intro short_opt_progress [of letters _ r g']) auto
      also have "\<dots> < args_left argv g"
        using True len arg by (simp add: args_left_def args_left_Suc)
      finally show ?thesis .
    qed
  qed
qed

section \<open>Well-formed states\<close>

text \<open>
  \<open>optind\<close> is an index of \<open>argv\<close> or its end; what is left of an argument is left of the one
  at \<open>optind\<close>. \<open>argv[optind]\<close> before a call that returns an option is an argument.
\<close>

definition getopt_wf :: "string list \<Rightarrow> getopt \<Rightarrow> bool" where
  "getopt_wf argv g \<longleftrightarrow>
     1 \<le> optind g \<and> optind g \<le> length argv \<and> (nextchar g \<noteq> [] \<longrightarrow> optind g < length argv)"

lemma short_opt_wf:
  "short_opt letters g = (r, g') \<Longrightarrow> 1 \<le> optind g \<Longrightarrow> optind g < length argv \<Longrightarrow> getopt_wf argv g'"
  by (cases "nextchar g") (auto simp: short_opt_def getopt_wf_def Let_def split: if_splits)

lemma long_opt_wf:
  "long_opt table argv str g = (r, g') \<Longrightarrow> optind g < length argv \<Longrightarrow> getopt_wf argv g'"
  by (auto simp: long_opt_def getopt_wf_def Let_def split: found.splits if_splits)

lemma getopt_wf_step:
  assumes "getopt_wf argv g" "getopt_long letters table argv g = (r, g')" "r \<noteq> -1"
  shows "getopt_wf argv g' \<and> optind g < length argv"
proof (cases "nextchar g = []")
  case True
  with assms(2,3) have "optind g < length argv"
    by (auto simp: getopt_long_def Let_def split: if_splits)
  with True assms show ?thesis
    by (auto simp: getopt_long_def getopt_wf_def [of _ g] Let_def split: if_splits
        intro: short_opt_wf long_opt_wf)
next
  case False
  with assms(1) have "optind g < length argv" "1 \<le> optind g" "argv \<noteq> []"
    by (auto simp: getopt_wf_def)
  with False assms(2) show ?thesis
    by (auto simp: getopt_long_def Let_def intro: short_opt_wf)
qed

lemma getopt_bound:
  assumes "getopt_wf argv g" "getopt_long letters table argv g = (r, g')"
  shows "optind g' \<le> length argv"
proof (cases "r = -1")
  case False
  with getopt_wf_step [OF assms] show ?thesis by (simp add: getopt_wf_def)
next
  case True
  show ?thesis
  proof (cases "nextchar g = []")
    case False
    with assms show ?thesis
      by (cases "nextchar g") (auto simp: getopt_long_def getopt_wf_def short_opt_def Let_def split: if_splits)
  next
    case True
    with assms have "optind g < length argv \<Longrightarrow> getopt_wf argv g' \<or> optind g' \<le> Suc (optind g)"
      by (auto simp: getopt_long_def getopt_wf_def [of _ g] Let_def split: if_splits
          intro: short_opt_wf long_opt_wf)
    moreover have "\<not> optind g < length argv \<Longrightarrow> optind g' = optind g"
      using True assms by (auto simp: getopt_long_def Let_def split: if_splits)
    ultimately show ?thesis using assms(1) by (cases "optind g < length argv") (auto simp: getopt_wf_def)
  qed
qed

text \<open>What a call returns: an error, a letter, or the value of a long option with its argument.\<close>

lemma find_long_found: "find_long table nm = Found i \<Longrightarrow> i < length table"
proof -
  have "i < length table" if "(i, p) \<in> set (enumerate 0 table)" for i p
    using that by (auto simp: in_set_enumerate_eq)
  then show "find_long table nm = Found i \<Longrightarrow> i < length table"
    unfolding find_long_def
    by (auto split: list.splits if_splits prod.splits simp: filter_eq_Cons_iff)
qed

lemma long_opt_result:
  assumes "long_opt table argv str g = (r, g')" "r \<noteq> 63"
  shows "\<exists>p \<in> set table. lval p = r \<and> (larg p = Required_argument \<longrightarrow>
    (\<exists>a. optarg g' = Some a \<and> (suffix a str \<or> a \<in> set argv)))"
proof -
  let ?nm = "takeWhile (\<lambda>c. c \<noteq> CHR ''='') str"
  let ?rest = "drop (length ?nm) str"
  from assms obtain i where i: "find_long table ?nm = Found i"
    by (auto simp: long_opt_def Let_def split: found.splits)
  then have "table ! i \<in> set table" using find_long_found by auto
  moreover have "suffix (tl ?rest) str"
    by (metis drop_Suc suffix_drop tl_drop)
  ultimately show ?thesis
    using assms i
    by (intro bexI [of _ "table ! i"]) (auto simp: long_opt_def Let_def split: if_splits)
qed

lemma getopt_result:
  assumes "getopt_long letters table argv g = (r, g')" "r \<noteq> -1" "r \<noteq> 63" "r \<notin> schar ` set letters"
  shows "\<exists>p \<in> set table. lval p = r \<and> (larg p = Required_argument \<longrightarrow>
    (\<exists>a x. optarg g' = Some a \<and> x \<in> set argv \<and> suffix a x))"
proof -
  have short: "short_opt letters h = (r, g') \<Longrightarrow> False" for h
    using assms(2-4) by (auto simp: short_opt_def Let_def split: list.splits if_splits)
  let ?g = "g\<lparr>optarg := None\<rparr>" and ?arg = "argv ! optind g"
  have "long_opt table argv (drop 2 ?arg) ?g = (r, g') \<and> optind g < length argv"
    using assms(1,2) short by (auto simp: getopt_long_def Let_def split: if_splits)
  with long_opt_result [of table argv "drop 2 ?arg" ?g r g'] assms(3) obtain p where
    p: "p \<in> set table" "lval p = r" "larg p = Required_argument \<Longrightarrow>
      \<exists>a. optarg g' = Some a \<and> (suffix a (drop 2 ?arg) \<or> a \<in> set argv)" and i: "?arg \<in> set argv"
    by auto
  have "suffix a (drop 2 ?arg) \<Longrightarrow> suffix a ?arg" for a
    by (meson suffix_drop suffix_order.trans)
  with p i show ?thesis by (intro bexI [OF _ p(1)]) (auto intro: exI [of _ ?arg])
qed

end
