(* ===== verification/Print_Fh.thy ===== *)
theory Print_Fh
  imports Globals
begin

text \<open>
  The choice of the streams for error and debug messages:
  \<open>src/libcscript/set-print-fh.c\<close>. What \<open>fstat\<close>, \<open>getenv\<close> and \<open>fopen\<close> answer are
  parameters.
\<close>

text \<open>\<open>struct fid\<close>\<close>

record fid =
  dev :: u64
  ino :: u64

text \<open>\<open>fd1\<close> and \<open>fd2\<close> are what \<open>fstat\<close> says of the descriptors, \<open>None\<close> if it fails.\<close>

definition stderr_redirected :: "fid option \<Rightarrow> fid option \<Rightarrow> int" where
  "stderr_redirected fd1 fd2 =
     (case fd1 of None \<Rightarrow> -1
      | Some stdout_id \<Rightarrow>
         (case fd2 of None \<Rightarrow> -1
          | Some stderr_id \<Rightarrow> (if stderr_id \<noteq> stdout_id then 1 else 0)))"

definition set_eprint_fh :: "fid option \<Rightarrow> fid option \<Rightarrow> 'a glob_scheme \<Rightarrow> 'a glob_scheme" where
  "set_eprint_fh fd1 fd2 s =
     (let rv = stderr_redirected fd1 fd2; efh = (if rv = 0 then Stdout else Stderr) in
      if errprint_fh s = None then s\<lparr>errprint_fh := Some efh\<rparr> else s)"

text \<open>\<open>fopen(name, "w")\<close>; \<open>ok\<close> tells which names can be opened.\<close>

definition try_fopen :: "(string \<Rightarrow> bool) \<Rightarrow> string \<Rightarrow> ('a io_scheme, stream option) prog" where
  "try_fopen ok name =
     (if ok name then bindp (upd (fopen_w name)) (\<lambda>_. ret (Some (Opened name))) else ret None)"

definition set_debug_fh ::
  "(string \<Rightarrow> string option) \<Rightarrow> (string \<Rightarrow> bool) \<Rightarrow> string option \<Rightarrow> string option \<Rightarrow>
   ('a glob_scheme, unit) prog" where
  "set_debug_fh getenv ok program_name dbg_fname =
     (case dbg_fname of
        None \<Rightarrow> upd (\<lambda>s. s\<lparr>dbgprint_fh := None\<rparr>)
      | Some fname \<Rightarrow>
         if fname \<noteq> [] then
           bindp (try_fopen ok fname) (\<lambda>f. upd (\<lambda>s. s\<lparr>dbgprint_fh := f\<rparr>))
         else
           bindp (case getenv (snprintf 32 (''DEBUG.'' @ fmt_s program_name)) of
                    None \<Rightarrow> ret None | Some dbg_fname \<Rightarrow> try_fopen ok dbg_fname) (\<lambda>f.
           case f of
             Some st \<Rightarrow> upd (\<lambda>s. s\<lparr>dbgprint_fh := Some st\<rparr>)
           | None \<Rightarrow>
               bindp (try_fopen ok ''/proc/fd/self/3'') (\<lambda>g.
               case g of
                 Some st \<Rightarrow> upd (\<lambda>s. s\<lparr>dbgprint_fh := Some st\<rparr>)
               | None \<Rightarrow> upd (\<lambda>s. s\<lparr>dbgprint_fh :=
                   (case errprint_fh s of Some st \<Rightarrow> Some st | None \<Rightarrow> Some Stderr)\<rparr>))))"

section \<open>Properties\<close>

text \<open>The first of some files that can be opened, as a stream.\<close>

definition first_opened :: "(string \<Rightarrow> bool) \<Rightarrow> string list \<Rightarrow> stream option" where
  "first_opened ok names = map_option Opened (find ok names)"

text \<open>
  C37: which streams the messages go to. For errors, a stream chosen before is kept; otherwise
  it is \<open>stdout\<close> exactly if both descriptors could be examined and are the same file. For
  debugging, no stream for a null name; the named file or no stream for a name; and for the
  empty name the first that can be opened of the file that the environment names and
  \<open>/proc/fd/self/3\<close>, or else the stream for errors: descriptor 3, which is
  \<open>/proc/self/fd/3\<close>, is never tried.
\<close>

theorem print_streams:
  "errprint_fh (set_eprint_fh fd1 fd2 s) =
     (case errprint_fh s of
        Some st \<Rightarrow> Some st
      | None \<Rightarrow> Some (if fd1 \<noteq> None \<and> fd1 = fd2 then Stdout else Stderr)) \<and>
   fst (set_debug_fh getenv ok program_name dbg_fname s) = Inr () \<and>
   dbgprint_fh (snd (set_debug_fh getenv ok program_name dbg_fname s)) =
     (case dbg_fname of
        None \<Rightarrow> None
      | Some [] \<Rightarrow>
         (case first_opened ok
            ((case getenv (snprintf 32 (''DEBUG.'' @ fmt_s program_name)) of None \<Rightarrow> [] | Some p \<Rightarrow> [p]) @
             [''/proc/fd/self/3'']) of
            Some st \<Rightarrow> Some st
          | None \<Rightarrow> (case errprint_fh s of Some st \<Rightarrow> Some st | None \<Rightarrow> Some Stderr))
      | Some fname \<Rightarrow> first_opened ok [fname])"
proof -
  have "errprint_fh (set_eprint_fh fd1 fd2 s) =
     (case errprint_fh s of
        Some st \<Rightarrow> Some st
      | None \<Rightarrow> Some (if fd1 \<noteq> None \<and> fd1 = fd2 then Stdout else Stderr))"
    by (auto simp: set_eprint_fh_def stderr_redirected_def Let_def split: option.splits)
  then show ?thesis
    by (auto simp: set_debug_fh_def try_fopen_def first_opened_def fopen_w_def prog_simps
        split: option.split list.split)
qed

end
