(* ===== verification/Color.thy ===== *)
theory Color
  imports Globals
begin

text \<open>
  Colour names and their ANSI escape sequences:
  \<open>src/libcscript/lookup-color-name.c\<close> and \<open>struct color_esc\<close> of \<open>src/inc/cscript.h\<close>.
\<close>

record color_esc =
  name :: string
  esc_start :: string
  esc_end :: string

text \<open>The tables, without the null entry that ends them in C.\<close>

definition normal_colors :: "color_esc list" where
  "normal_colors = [
    \<lparr>name = ''black'',   esc_start = CHR 0x1B # ''[0;30m'', esc_end = CHR 0x1B # ''[m''\<rparr>,
    \<lparr>name = ''red'',     esc_start = CHR 0x1B # ''[0;31m'', esc_end = CHR 0x1B # ''[m''\<rparr>,
    \<lparr>name = ''green'',   esc_start = CHR 0x1B # ''[0;32m'', esc_end = CHR 0x1B # ''[m''\<rparr>,
    \<lparr>name = ''yellow'',  esc_start = CHR 0x1B # ''[0;33m'', esc_end = CHR 0x1B # ''[m''\<rparr>,
    \<lparr>name = ''blue'',    esc_start = CHR 0x1B # ''[0;34m'', esc_end = CHR 0x1B # ''[m''\<rparr>,
    \<lparr>name = ''magenta'', esc_start = CHR 0x1B # ''[0;35m'', esc_end = CHR 0x1B # ''[m''\<rparr>,
    \<lparr>name = ''cyan'',    esc_start = CHR 0x1B # ''[0;36m'', esc_end = CHR 0x1B # ''[m''\<rparr>,
    \<lparr>name = ''white'',   esc_start = CHR 0x1B # ''[0;37m'', esc_end = CHR 0x1B # ''[m''\<rparr>]"

definition bright_colors :: "color_esc list" where
  "bright_colors = [
    \<lparr>name = ''black'',   esc_start = CHR 0x1B # ''[1;30m'', esc_end = CHR 0x1B # ''[m''\<rparr>,
    \<lparr>name = ''red'',     esc_start = CHR 0x1B # ''[1;31m'', esc_end = CHR 0x1B # ''[m''\<rparr>,
    \<lparr>name = ''green'',   esc_start = CHR 0x1B # ''[1;32m'', esc_end = CHR 0x1B # ''[m''\<rparr>,
    \<lparr>name = ''yellow'',  esc_start = CHR 0x1B # ''[1;33m'', esc_end = CHR 0x1B # ''[m''\<rparr>,
    \<lparr>name = ''blue'',    esc_start = CHR 0x1B # ''[1;34m'', esc_end = CHR 0x1B # ''[m''\<rparr>,
    \<lparr>name = ''magenta'', esc_start = CHR 0x1B # ''[1;35m'', esc_end = CHR 0x1B # ''[m''\<rparr>,
    \<lparr>name = ''cyan'',    esc_start = CHR 0x1B # ''[1;36m'', esc_end = CHR 0x1B # ''[m''\<rparr>,
    \<lparr>name = ''white'',   esc_start = CHR 0x1B # ''[1;37m'', esc_end = CHR 0x1B # ''[m''\<rparr>]"

text \<open>The loop over a table: the first entry with the name.\<close>

fun lookup_loop :: "string \<Rightarrow> color_esc list \<Rightarrow> color_esc option" where
  "lookup_loop nm [] = None"
| "lookup_loop nm (ent # table) = (if nm = name ent then Some ent else lookup_loop nm table)"

definition lookup_color :: "string option \<Rightarrow> color_esc option" where
  "lookup_color nm =
     (case nm of None \<Rightarrow> None
      | Some str \<Rightarrow>
         (if take 7 str = ''bright-'' then lookup_loop (drop 7 str) bright_colors
          else lookup_loop str normal_colors))"

section \<open>Properties\<close>

definition color_names :: "string list" where
  "color_names = [''black'', ''red'', ''green'', ''yellow'', ''blue'', ''magenta'', ''cyan'', ''white'']"

lemma names_of_tables: "map name normal_colors = color_names" "map name bright_colors = color_names"
  by (simp_all add: normal_colors_def bright_colors_def color_names_def)

lemma lookup_loop_None: "lookup_loop nm table = None \<longleftrightarrow> nm \<notin> set (map name table)"
  by (induction table) auto

lemma lookup_loop_nth:
  "distinct (map name table) \<Longrightarrow> i < length table \<Longrightarrow>
   lookup_loop (map name table ! i) table = Some (table ! i)"
proof (induction table arbitrary: i)
  case Nil
  then show ?case by simp
next
  case (Cons ent table)
  have "name (table ! j) \<noteq> name ent" if "j < length table" for j
  proof -
    have "name (table ! j) \<in> name ` set table"
      using nth_mem [OF that] by simp
    with Cons.prems(1) show ?thesis by auto
  qed
  with Cons show ?case by (cases i) auto
qed

lemma color_names_distinct: "distinct color_names"
  by (simp add: color_names_def)

lemma color_names_not_bright: "nm \<in> set color_names \<Longrightarrow> take 7 nm \<noteq> ''bright-''"
  by (auto simp: color_names_def)

text \<open>
  \<open>lookup_color\<close> finds an entry exactly for the eight colour names and for the same
  names after \<open>bright-\<close>.
\<close>

lemma lookup_color_known:
  "lookup_color (Some nm) \<noteq> None \<longleftrightarrow>
     nm \<in> set color_names \<or> (\<exists>base \<in> set color_names. nm = ''bright-'' @ base)"
proof (cases "take 7 nm = ''bright-''")
  case True
  then have "nm = ''bright-'' @ drop 7 nm"
    by (metis append_take_drop_id)
  moreover have "nm \<notin> set color_names"
    using True color_names_not_bright by blast
  ultimately show ?thesis
    using True by (auto simp: lookup_color_def lookup_loop_None names_of_tables)
next
  case False
  then show ?thesis
    by (auto simp: lookup_color_def lookup_loop_None names_of_tables)
qed

text \<open>
  The \<open>i\<close>-th name selects the escape sequence with colour number \<open>30 + i\<close>, with
  intensity 0 as it stands and intensity 1 after \<open>bright-\<close>; both are ended by the sequence
  that resets all attributes.
\<close>

lemma lookup_color_escape:
  assumes "i < 8"
  shows "map_option esc_start (lookup_color (Some (color_names ! i))) =
      Some (CHR 0x1B # ''[0;3'' @ dec i @ ''m'') \<and>
    map_option esc_start (lookup_color (Some (''bright-'' @ color_names ! i))) =
      Some (CHR 0x1B # ''[1;3'' @ dec i @ ''m'') \<and>
    map_option esc_end (lookup_color (Some (color_names ! i))) = Some (CHR 0x1B # ''[m'') \<and>
    map_option esc_end (lookup_color (Some (''bright-'' @ color_names ! i))) =
      Some (CHR 0x1B # ''[m'')"
proof -
  have len: "i < length color_names" "i < length normal_colors" "i < length bright_colors"
    using assms by (simp_all add: color_names_def normal_colors_def bright_colors_def)
  have normal: "lookup_color (Some (color_names ! i)) = Some (normal_colors ! i)"
    using lookup_loop_nth [of normal_colors i] len color_names_not_bright [OF nth_mem]
    by (simp add: lookup_color_def names_of_tables color_names_distinct)
  have bright: "lookup_color (Some (''bright-'' @ color_names ! i)) = Some (bright_colors ! i)"
    using lookup_loop_nth [of bright_colors i] len
    by (simp add: lookup_color_def names_of_tables color_names_distinct)
  have "i = 0 \<or> i = 1 \<or> i = 2 \<or> i = 3 \<or> i = 4 \<or> i = 5 \<or> i = 6 \<or> i = 7"
    using assms by arith
  then show ?thesis
    unfolding normal bright
    by (elim disjE) (simp_all add: normal_colors_def bright_colors_def dec_digit)
qed

end
