(* ===== verification/Sname.thy ===== *)
theory Sname
  imports Prelude
begin

text \<open>
  The last component of a path: \<open>src/libcscript/sname.c\<close>. The C function returns a pointer
  into its argument; the model computes the offset of that pointer and the string found
  there. The theorem characterises the result without the scan.
\<close>

text \<open>
  The loop. \<open>rest\<close> is the string at \<open>p\<close>; \<open>p\<close> and \<open>st\<close> are offsets into the path;
  \<open>prevc\<close> is the previous character (0 before the first).
\<close>

fun sname_loop :: "string \<Rightarrow> nat \<Rightarrow> nat \<Rightarrow> char \<Rightarrow> nat" where
  "sname_loop [] p st prevc = st"
| "sname_loop (c # rest) p st prevc =
     sname_loop rest (Suc p) (if prevc = CHR ''/'' then p else st) c"

definition sname :: "string option \<Rightarrow> string option" where
  "sname path =
     (case path of None \<Rightarrow> None | Some str \<Rightarrow> Some (drop (sname_loop str 0 0 CHR 0x00) str))"

text \<open>The last component, with the slash that may follow it, stands where nothing but
  directories precede it.\<close>

definition last_component :: "string \<Rightarrow> string \<Rightarrow> bool" where
  "last_component str r \<longleftrightarrow>
     (\<exists>d. str = d @ r \<and> (d = [] \<or> last d = CHR ''/'')) \<and>
     (str \<noteq> [] \<longrightarrow> r \<noteq> []) \<and> CHR ''/'' \<notin> set (butlast r)"

text \<open>
  The loop invariant: \<open>d\<close> is the part of the path before \<open>p\<close>, and \<open>st\<close> the start of the
  last component of \<open>d\<close>.
\<close>

lemma sname_loop_inv:
  assumes "last_component d (drop st d)" "st \<le> length d"
    and "prevc = (if d = [] then CHR 0x00 else last d)"
  shows "last_component (d @ rest) (drop (sname_loop rest (length d) st prevc) (d @ rest))"
  using assms
proof (induction rest arbitrary: d st prevc)
  case Nil
  then show ?case by simp
next
  case (Cons c rest)
  let ?st = "if prevc = CHR ''/'' then length d else st"
  have "last_component (d @ [c]) (drop ?st (d @ [c]))"
  proof (cases "prevc = CHR ''/''")
    case True
    with Cons.prems(3) have "d \<noteq> []" "last d = CHR ''/''" by (auto split: if_splits)
    with True show ?thesis by (auto simp: last_component_def)
  next
    case False
    from Cons.prems(1) obtain e where e: "d = e @ drop st d" "e = [] \<or> last e = CHR ''/''"
      and tail: "d \<noteq> [] \<Longrightarrow> drop st d \<noteq> []" "CHR ''/'' \<notin> set (butlast (drop st d))"
      by (auto simp: last_component_def)
    have "CHR ''/'' \<notin> set (drop st d)"
    proof (cases "drop st d = []")
      case True
      then show ?thesis by simp
    next
      case drop: False
      then have "drop st d = butlast (drop st d) @ [last d]"
        using append_butlast_last_id [OF drop] by (simp add: last_drop)
      moreover have "last d \<noteq> CHR ''/''"
        using False Cons.prems(3) drop by (cases "d = []") auto
      ultimately show ?thesis
        using tail(2) by (metis Un_iff empty_iff empty_set list.set_intros(1) set_ConsD set_append)
    qed
    moreover have "\<exists>e'. d @ [c] = e' @ drop st d @ [c] \<and> (e' = [] \<or> last e' = CHR ''/'')"
      using e by (metis append.assoc)
    ultimately show ?thesis
      using False Cons.prems(2) by (simp add: last_component_def butlast_append)
  qed
  moreover have "?st \<le> length (d @ [c])"
    using Cons.prems(2) by simp
  ultimately have "last_component ((d @ [c]) @ rest)
      (drop (sname_loop rest (length (d @ [c])) ?st c) ((d @ [c]) @ rest))"
    by (intro Cons.IH) simp_all
  then show ?case by simp
qed

lemma last_component_unique:
  assumes "last_component str r" "last_component str q"
  shows "r = q"
proof -
  have shorter: "x = y" if x: "last_component str x" and y: "last_component str y"
    and len: "length x \<le> length y" for x y
  proof -
    from x obtain d where d: "str = d @ x" "d = [] \<or> last d = CHR ''/''"
      by (auto simp: last_component_def)
    from y obtain e where e: "str = e @ y" by (auto simp: last_component_def)
    from d(1) e len obtain m where m: "y = m @ x" "d = e @ m"
      by (auto simp: append_eq_append_conv2)
    show ?thesis
    proof (cases "m = []")
      case True
      with m show ?thesis by simp
    next
      case False
      with m d(2) have "CHR ''/'' \<in> set m"
        by (metis append_is_Nil_conv last_appendR last_in_set)
      moreover have "x \<noteq> []"
        using x False m(1) e by (auto simp: last_component_def)
      ultimately have "CHR ''/'' \<in> set (butlast y)"
        using m(1) by (simp add: butlast_append)
      with y show ?thesis by (simp add: last_component_def)
    qed
  qed
  show ?thesis
    using shorter [OF assms] shorter [OF assms(2,1)] by (cases "length r \<le> length q") auto
qed

text \<open>
  C40: \<open>sname\<close> of a string is its last component and nothing else: the suffix that starts
  the string or follows a slash, is not empty unless the string is, and holds no slash
  except perhaps as its last character.
\<close>

theorem sname_last_component: "sname (Some str) = Some r \<longleftrightarrow> last_component str r"
proof -
  have "last_component str (drop (sname_loop str 0 0 CHR 0x00) str)"
    using sname_loop_inv [of "[]" 0 "CHR 0x00" str] by (simp add: last_component_def)
  then show ?thesis
    by (auto simp: sname_def intro: last_component_unique)
qed

end
