(* ===== verification/Errmark_Main.thy ===== *)
theory Errmark_Main
  imports Tracer Getopt Print_Fh Color Sname
begin

text \<open>
  The command: \<open>src/cmd/errmark.c\<close>. The record adds the program's names and the variables of
  \<open>getopt\<close> to the tracer's state. What the surroundings answer (\<open>fstat\<close>, \<open>fopen\<close>,
  \<open>fork\<close> and all that follows it) is a record \<open>env\<close>.

  The option loop calls \<open>getopt_long\<close> until there are no more options. It is given fuel, and
  the lemmas show that the fuel \<open>main\<close> gives it is always enough.
\<close>

record errmark = world +
  program_path :: "string option"
  program_name :: "string option"
  gopt :: getopt

record env =
  stat1 :: "fid option"
  stat2 :: "fid option"
  can_open :: "string \<Rightarrow> bool"
  fork :: forked

text \<open>The state before \<open>main\<close>, with any policy \<open>dr\<close> of stdio for its buffers.\<close>

definition init_errmark :: "(stream \<Rightarrow> string \<Rightarrow> nat) \<Rightarrow> errmark" where
  "init_errmark dr =
     (world.extend init_world (errmark.fields None None init_getopt))\<lparr>drain := dr\<rparr>"

declare init_errmark_def [init_states] errmark.defs [init_states]

section \<open>Options and texts\<close>

definition OPT_BASE :: int where "OPT_BASE = 0xf000"
definition OPT_COLOR :: int where "OPT_COLOR = OPT_BASE + 1"
definition OPT_MARK :: int where "OPT_MARK = OPT_BASE + 2"
definition OPT_COPY :: int where "OPT_COPY = OPT_BASE + 3"

definition long_options :: "long_option list" where
  "long_options = [
    \<lparr>lname = ''help'',    larg = No_argument,       lval = schar CHR ''h''\<rparr>,
    \<lparr>lname = ''version'', larg = No_argument,       lval = schar CHR ''V''\<rparr>,
    \<lparr>lname = ''verbose'', larg = No_argument,       lval = schar CHR ''v''\<rparr>,
    \<lparr>lname = ''debug'',   larg = No_argument,       lval = schar CHR ''d''\<rparr>,
    \<lparr>lname = ''mark'',    larg = Required_argument, lval = OPT_MARK\<rparr>,
    \<lparr>lname = ''color'',   larg = Required_argument, lval = OPT_COLOR\<rparr>,
    \<lparr>lname = ''copy'',    larg = Required_argument, lval = OPT_COPY\<rparr>]"

definition usage_text :: string where
  "usage_text =
     ''Options:'' @ nl @
     ''  --help|-h|-?     Show this help message and exit'' @ nl @
     ''  --version        Show ush version information and exit'' @ nl @
     ''  --verbose|-v     verbose'' @ nl @
     ''  --debug|-d       debug'' @ nl @
     ''  --mark|-m        <mark-specification>'' @ nl @
     ''      Where mark-specification = fd:start:end.'' @ nl @
     ''  --color          <color-name>'' @ nl @
     ''  -c|copy          <filename>'' @ nl"

definition version_text :: string where
  "version_text = ''0.1'' @ nl"

definition copyright_text :: string where
  "copyright_text = ''Copyright (C) 2016 Guy Shaw'' @ nl @ ''Written by Guy Shaw'' @ nl"

definition license_text :: string where
  "license_text =
     ''License GPLv3+: GNU GPL version 3 or later'' @ '' <http://gnu.org/licenses/gpl.html>.'' @ nl @
     ''This is free software: you are free to change and redistribute it.'' @ nl @
     ''There is NO WARRANTY, to the extent permitted by law.'' @ nl"

definition fshow_program_version :: "stream option \<Rightarrow> ('a io_scheme, unit) prog" where
  "fshow_program_version f = seqp [
     fputs version_text f, fputs nl f, fputs copyright_text f, fputs nl f,
     fputs license_text f, fputs nl f]"

definition show_program_version :: "('a io_scheme, unit) prog" where
  "show_program_version = fshow_program_version (Some Stdout)"

definition usage :: "('a errmark_scheme, unit) prog" where
  "usage = bindp (withs (\<lambda>s. eprintf (''usage: '' @ fmt_s (program_name s) @ '' [ <options> ]'' @ nl)))
     (\<lambda>_. eprint usage_text)"

definition is_long_option :: "string \<Rightarrow> bool" where
  "is_long_option s = (take 2 s = ''--'')"

definition vischar_r :: "nat \<Rightarrow> int \<Rightarrow> string" where
  "vischar_r sz c = (if isprint c then [char_of c] else snprintf sz (CHR 0x5C # ''x'' @ fmt_02x c))"

section \<open>The handlers of the options\<close>

definition opt_mark :: "string \<Rightarrow> ('a errmark_scheme, unit) prog" where
  "opt_mark mark_specs =
     bindp (parse_mark_specs mark_specs) (\<lambda>mark_ok.
     bindp (withs (\<lambda>s. whenp (verbose s \<or> \<not> mark_ok) (seqp [
       fputs (''--mark='' @ [CHR 0x27]) (Some Stderr),
       fshow_str (Some Stderr) mark_specs,
       fputs (CHR 0x27 # nl) (Some Stderr)]))) (\<lambda>_.
     if mark_ok then ret () else exitp 2))"

fun color_rows :: "stream option \<Rightarrow> nat \<Rightarrow> color_esc list \<Rightarrow> ('a io_scheme, unit) prog" where
  "color_rows f i [] = ret ()"
| "color_rows f i (ent # table) = seqp [
     whenp (1 \<le> i) (fputs '' '' f),
     fputs (color_esc.name ent) f,
     color_rows f (Suc i) table]"

definition fshow_color_table :: "stream option \<Rightarrow> color_esc list \<Rightarrow> ('a io_scheme, unit) prog" where
  "fshow_color_table f table = color_rows f 0 table"

definition opt_color :: "string \<Rightarrow> ('a errmark_scheme, unit) prog" where
  "opt_color color_name =
     (case lookup_color (Some color_name) of
        None \<Rightarrow>
          bindp (seqp [
            fputs (''Unknown color, '' @ [CHR 0x27] @ color_name @ [CHR 0x27] @ ''.'' @ nl) (Some Stderr),
            fputs (''Known color names are:'' @ nl) (Some Stderr),
            fputs ''    '' (Some Stderr),
            fshow_color_table (Some Stderr) normal_colors,
            fputs nl (Some Stderr),
            fputs ''    '' (Some Stderr),
            fshow_color_table (Some Stderr) bright_colors,
            fputs nl (Some Stderr)]) (\<lambda>_. exitp 2)
      | Some ent \<Rightarrow>
          bindp (setmark 2 (esc_start ent) (esc_end ent)) (\<lambda>ok.
          if ok then ret () else exitp 2))"

text \<open>\<open>optarg\<close>, which is not null for an option with an argument.\<close>

definition with_optarg :: "(string \<Rightarrow> ('a errmark_scheme, unit) prog) \<Rightarrow> ('a errmark_scheme, unit) prog" where
  "with_optarg f = withs (\<lambda>s. case optarg (gopt s) of None \<Rightarrow> die (Fault Null_deref) | Some a \<Rightarrow> f a)"

text \<open>\<open>argv[i]\<close>, which is null at the end of the array.\<close>

definition arg_at :: "string list \<Rightarrow> nat \<Rightarrow> string option" where
  "arg_at argv i = (if i < length argv then Some (argv ! i) else None)"

text \<open>
  The \<open>switch\<close>; the result is \<open>err_count\<close>. \<open>arg\<close> is \<open>argv[this_option_optind]\<close>, which is
  read for an unknown option only.
\<close>

definition handle_option :: "string option \<Rightarrow> int \<Rightarrow> nat \<Rightarrow> ('a errmark_scheme, nat) prog" where
  "handle_option arg optc err_count =
     (if optc = schar CHR ''V'' then bindp show_program_version (\<lambda>_. exitp 0)
      else if optc = schar CHR ''h'' then bindp (fputs usage_text (Some Stdout)) (\<lambda>_. exitp 0)
      else if optc = schar CHR ''d'' then bindp (upd (\<lambda>s. s\<lparr>debug := True\<rparr>)) (\<lambda>_. ret err_count)
      else if optc = schar CHR ''v'' then bindp (upd (\<lambda>s. s\<lparr>verbose := True\<rparr>)) (\<lambda>_. ret err_count)
      else if optc = OPT_MARK then bindp (with_optarg opt_mark) (\<lambda>_. ret err_count)
      else if optc = OPT_COLOR then bindp (with_optarg opt_color) (\<lambda>_. ret err_count)
      else if optc = OPT_COPY then
        bindp (withs (\<lambda>s. upd (upd_cmd (\<lambda>c. c\<lparr>copy_fname := optarg (gopt s)\<rparr>)))) (\<lambda>_. ret err_count)
      else if optc = schar CHR ''?'' then
        bindp (withs (\<lambda>s. seqp [
          (case program_name s of None \<Rightarrow> die (Fault Null_deref) | Some nm \<Rightarrow> eprint nm),
          eprint '': '',
          (case arg of
             None \<Rightarrow> die (Fault Null_deref)
           | Some arg \<Rightarrow>
              (if is_long_option arg
               then eprintf (''unknown long option, '' @ [CHR 0x27] @ arg @ CHR 0x27 # nl)
               else eprintf (''unknown short option, '' @ [CHR 0x27] @
                 vischar_r 10 (optopt (gopt s)) @ CHR 0x27 # nl)))])) (\<lambda>_. ret (Suc err_count))
      else
        bindp (withs (\<lambda>s. eprintf (fmt_s (program_name s) @ '': INTERNAL ERROR: unknown option, '' @
          [CHR 0x27, char_of (optopt (gopt s)), CHR 0x27] @ nl))) (\<lambda>_. exitp 2))"

section \<open>The option loop\<close>

definition call_getopt :: "string list \<Rightarrow> ('a errmark_scheme, int) prog" where
  "call_getopt argv = withs (\<lambda>s.
     case getopt_long ''hVdv'' long_options argv (gopt s) of
       (optc, g) \<Rightarrow> bindp (upd (\<lambda>s. s\<lparr>gopt := g\<rparr>)) (\<lambda>_. ret optc))"

text \<open>\<open>if (debug) { ... }\<close> after a call.\<close>

definition debug_optc :: "int \<Rightarrow> ('a errmark_scheme, unit) prog" where
  "debug_optc optc = withs (\<lambda>s. whenp (debug s) (seqp [
     dbg_printf (''optc=0x'' @ hex (to_unsigned optc)),
     whenp (0 \<le> optc \<and> optc \<le> 127 \<and> isprint optc)
       (dbg_printf (''='' @ [CHR 0x27, char_of optc, CHR 0x27])),
     eprintf nl]))"

text \<open>\<open>None\<close> if the fuel \<open>n\<close> is used up; otherwise the final \<open>err_count\<close>.\<close>

fun option_loop :: "nat \<Rightarrow> string list \<Rightarrow> nat \<Rightarrow> ('a errmark_scheme, nat option) prog" where
  "option_loop 0 argv err_count = ret None"
| "option_loop (Suc n) argv err_count = withs (\<lambda>s.
     if err_count > 10 then
       bindp (eprintf (fmt_s (program_name s) @ '': Too many option errors.'' @ nl)) (\<lambda>_. ret (Some err_count))
     else
       let this_option_optind = (if optind (gopt s) \<noteq> 0 then optind (gopt s) else 1) in
       bindp (call_getopt argv) (\<lambda>optc.
       if optc = -1 then ret (Some err_count)
       else
         bindp (debug_optc optc) (\<lambda>_.
         withs (\<lambda>s.
         let optc = (if optc = schar CHR ''?'' \<and> optopt (gopt s) = schar CHR ''?''
                     then schar CHR ''h'' else optc) in
         bindp (handle_option (arg_at argv this_option_optind) optc err_count) (\<lambda>err_count.
         option_loop n argv err_count)))))"

section \<open>main\<close>

text \<open>Opening the file to copy to.\<close>

definition open_copy :: "(string \<Rightarrow> bool) \<Rightarrow> ('a errmark_scheme, unit) prog" where
  "open_copy ok =
     bindp (upd (upd_cmd (\<lambda>c. c\<lparr>copy_fh := None\<rparr>))) (\<lambda>_.
     withs (\<lambda>s. case copy_fname (cmd s) of
       None \<Rightarrow> ret ()
     | Some nm \<Rightarrow>
         bindp (try_fopen ok nm) (\<lambda>f.
         bindp (upd (upd_cmd (\<lambda>c. c\<lparr>copy_fh := f\<rparr>))) (\<lambda>_.
         if f = None then
           bindp (eprintf (''open('' @ [CHR 0x27] @ nm @ [CHR 0x27] @ '', '' @
             [CHR 0x22] @ ''w'' @ [CHR 0x22] @ '') failed.'' @ nl)) (\<lambda>_. exitp 2)
         else ret ()))))"

text \<open>Setting up the command from the arguments after the options.\<close>

definition set_command :: "string list \<Rightarrow> ('a errmark_scheme, unit) prog" where
  "set_command argv = withs (\<lambda>s.
     let i = optind (gopt s) in
     upd (upd_cmd (\<lambda>c. c\<lparr>cmd_path := arg_at argv i, cmd_name := sname (arg_at argv i),
       cargc := int (length argv) - int i, cargv := drop i argv, nullify := True, slow := True\<rparr>)))"

definition set_verbose :: "'a errmark_scheme \<Rightarrow> 'a errmark_scheme" where
  "set_verbose s = (let v = verbose s \<or> debug s in
     upd_cmd (\<lambda>c. c\<lparr>cverbose := v, cdebug := debug s\<rparr>) (s\<lparr>verbose := v\<rparr>))"

text \<open>Running the command and leaving with its exit code. \<open>None\<close>: it is still running.\<close>

definition run_command :: "forked \<Rightarrow> ('a world_scheme, unit) prog" where
  "run_command fk =
     bindp (errmark_run_program fk) (\<lambda>r. case r of
       None \<Rightarrow> ret ()
     | Some status \<Rightarrow>
         bindp (upd (upd_cmd (\<lambda>c. c\<lparr>child_status := status\<rparr>))) (\<lambda>_. exitp (drop_bit 8 status)))"

definition enough_fuel :: "string list \<Rightarrow> nat" where
  "enough_fuel argv = Suc (\<Sum>a \<leftarrow> argv. Suc (length a))"

text \<open>\<open>main\<close> up to the end of the options.\<close>

definition start_main :: "env \<Rightarrow> string list \<Rightarrow> 'a errmark_scheme \<Rightarrow> 'a errmark_scheme" where
  "start_main e argv s =
     (set_eprint_fh (stat1 e) (stat2 e) s)
       \<lparr>program_path := arg_at argv 0, program_name := sname (arg_at argv 0)\<rparr>"

text \<open>\<open>main\<close> after the options.\<close>

definition finish_main :: "env \<Rightarrow> string list \<Rightarrow> nat \<Rightarrow> ('a errmark_scheme, unit) prog" where
  "finish_main e argv err_count = seqp [
     whenp (err_count \<noteq> 0) (bindp usage (\<lambda>_. exitp 1)),
     upd set_verbose,
     whenp (argv = []) (bindp (withs (\<lambda>s. eprintf (fmt_s (program_name s) @
       '': Must supply at least a command name.'' @ nl))) (\<lambda>_. bindp usage (\<lambda>_. exitp 2))),
     set_command argv,
     withs (\<lambda>s. whenp (verbose s)
       (fshow_str_array (Some Stderr) (nat (cargc (cmd s))) (cargv (cmd s)))),
     open_copy (can_open e),
     run_command (fork e)]"

definition main_prog :: "env \<Rightarrow> string list \<Rightarrow> ('a errmark_scheme, unit) prog" where
  "main_prog e argv =
     bindp (upd (start_main e argv)) (\<lambda>_.
     bindp (option_loop (enough_fuel argv) argv 0) (\<lambda>r. case r of
       None \<Rightarrow> ret ()
     | Some err_count \<Rightarrow> finish_main e argv err_count))"

section \<open>The handlers leave the variables of getopt and the streams of messages alone\<close>

definition same_gopt :: "'a errmark_scheme \<Rightarrow> 'a errmark_scheme \<Rightarrow> bool" where
  "same_gopt s s' \<longleftrightarrow>
     gopt s' = gopt s \<and> program_name s' = program_name s \<and>
     errprint_fh s' = errprint_fh s \<and> dbgprint_fh s' = dbgprint_fh s"

interpretation same_gopt: kept same_gopt
  by unfold_locales (simp_all add: same_gopt_def)

lemma same_gopt_upd [simp]:
  "same_gopt s (fput st d s)" "same_gopt s (flush_all s)"
  "same_gopt s (s\<lparr>debug := b\<rparr>)" "same_gopt s (s\<lparr>verbose := b\<rparr>)"
  "same_gopt s (s\<lparr>start1 := m, end1 := n\<rparr>)" "same_gopt s (s\<lparr>start2 := m, end2 := n\<rparr>)"
  "same_gopt s (upd_cmd f s)"
proof -
  have "same_gopt s (fold fflush fs s)" for fs
    by (induction fs arbitrary: s) (simp_all add: same_gopt_def io_defs)
  then show "same_gopt s (flush_all s)" by (simp add: flush_all_def)
qed (simp_all add: same_gopt_def io_defs upd_cmd_def)

lemma same_gopt_fputs [simp]: "keeps same_gopt (fputs t f)"
  by (cases f) (simp_all add: fputs_def same_gopt.keeps_die keeps_upd)

lemma same_gopt_basic [simp]:
  "keeps same_gopt (eprintf t)" "keeps same_gopt (eprint t)"
  "keeps same_gopt (exitp n)" "keeps same_gopt (lift_res r)"
  by (simp_all add: eprintf_def eprint_def keeps_withs)
    (simp_all add: keeps_def exitp_def lift_res_run same_gopt.refl)

lemmas same_gopt_rules = same_gopt.keeps_rules keeps_upd

lemma same_gopt_fshow_str [simp]: "keeps same_gopt (fshow_str f str)"
proof (induction str)
  case Nil
  then show ?case by (simp add: same_gopt.keeps_ret)
next
  case (Cons c str)
  have "keeps same_gopt (show_char_r n i)" for n i
    by (auto simp: show_char_r_def intro!: same_gopt_rules)
  with Cons show ?case by (auto intro!: same_gopt_rules)
qed

lemma same_gopt_parse [simp]: "keeps same_gopt (parse_mark_specs m)"
proof -
  have dbg: "keeps same_gopt (dbg_mark l x)" for l x
    by (auto simp: dbg_mark_def intro!: same_gopt_rules split: option.split)
  show ?thesis
    by (auto simp: parse_mark_specs_def Let_def dbg intro!: same_gopt_rules
        split: list.split prod.split)
qed

lemma same_gopt_opt_mark [simp]: "keeps same_gopt (opt_mark m)"
  by (auto simp: opt_mark_def intro!: same_gopt_rules)

lemma same_gopt_color_rows [simp]: "keeps same_gopt (color_rows f i table)"
  by (induction table arbitrary: i) (auto intro!: same_gopt_rules)

lemma same_gopt_opt_color [simp]: "keeps same_gopt (opt_color nm)"
  by (auto simp: opt_color_def setmark_def fshow_color_table_def intro!: same_gopt_rules
      split: option.split)

lemma same_gopt_handle_option [simp]: "keeps same_gopt (handle_option arg optc k)"
proof -
  have arg: "keeps same_gopt (with_optarg f)" if "\<And>a. keeps same_gopt (f a)"
    for f :: "string \<Rightarrow> ('a errmark_scheme, unit) prog"
    using that by (auto simp: with_optarg_def intro!: same_gopt_rules split: option.split)
  have "keeps (same_gopt :: 'a errmark_scheme \<Rightarrow> _) show_program_version"
    by (simp add: show_program_version_def fshow_program_version_def same_gopt.keeps_bindp
        same_gopt.keeps_ret)
  then show ?thesis
    unfolding handle_option_def
    by (intro keeps_split same_gopt.keeps_bindp keeps_withs)
      (simp_all add: same_gopt.keeps_bindp same_gopt.keeps_ret same_gopt.keeps_die keeps_upd arg
        split: option.split)
qed

lemma same_gopt_debug_optc [simp]: "keeps same_gopt (debug_optc optc)"
  by (auto simp: debug_optc_def dbg_printf_def intro!: same_gopt_rules)

lemma keeps_goptD:
  "keeps same_gopt m \<Longrightarrow> m s = (r, s') \<Longrightarrow> gopt s' = gopt s \<and> program_name s' = program_name s \<and>
   errprint_fh s' = errprint_fh s \<and> dbgprint_fh s' = dbgprint_fh s"
  by (metis keeps_def same_gopt_def snd_conv)

section \<open>The option loop ends\<close>

lemma call_getopt_run:
  "call_getopt argv s =
     (case getopt_long ''hVdv'' long_options argv (gopt s) of (optc, g) \<Rightarrow> (Inr optc, s\<lparr>gopt := g\<rparr>))"
  by (simp add: call_getopt_def withs_run bindp_run upd_run ret_run split: prod.split)

text \<open>One pass of the loop after an option was found.\<close>

definition after_getopt :: "string option \<Rightarrow> int \<Rightarrow> nat \<Rightarrow> ('a errmark_scheme, nat) prog" where
  "after_getopt arg optc err_count =
     bindp (debug_optc optc) (\<lambda>_. withs (\<lambda>s.
       handle_option arg (if optc = schar CHR ''?'' \<and> optopt (gopt s) = schar CHR ''?''
         then schar CHR ''h'' else optc) err_count))"

lemma same_gopt_after [simp]: "keeps same_gopt (after_getopt arg optc k)"
  by (auto simp: after_getopt_def intro!: same_gopt.keeps_bindp keeps_withs)

lemma option_loop_Suc:
  assumes "k \<le> 10" "getopt_long ''hVdv'' long_options argv (gopt s) = (optc, g)"
  shows "option_loop (Suc n) argv k s =
    (if optc = -1 then (Inr (Some k), s\<lparr>gopt := g\<rparr>)
     else bindp (after_getopt (arg_at argv (if optind (gopt s) \<noteq> 0 then optind (gopt s) else 1)) optc k)
       (\<lambda>k. option_loop n argv k) (s\<lparr>gopt := g\<rparr>))"
  using assms
  by (simp add: withs_run Let_def bindp_run call_getopt_run ret_run after_getopt_def
      split: prod.split sum.split)

text \<open>Without even a name of the program there are no options.\<close>

lemma option_loop_no_args:
  "option_loop (enough_fuel []) [] 0 s = (Inr (Some 0), s\<lparr>gopt := gopt s\<rparr>)"
  using option_loop_Suc [of 0 "[]" s "-1" "gopt s" 0]
  by (simp add: enough_fuel_def getopt_long_def del: option_loop.simps)

lemma option_loop_fuel:
  "args_left argv (gopt s) < n \<Longrightarrow> fst (option_loop n argv k s) \<noteq> Inr None"
proof (induction n arbitrary: k s)
  case 0
  then show ?case by simp
next
  case (Suc n)
  show ?case
  proof (cases "k \<le> 10")
    case False
    then show ?thesis by (simp add: withs_run bindp_run ret_run split: prod.split sum.split)
  next
    case True
    obtain optc g where g: "getopt_long ''hVdv'' long_options argv (gopt s) = (optc, g)" by fastforce
    note step = option_loop_Suc [OF True g, of n]
    let ?arg = "arg_at argv (if optind (gopt s) \<noteq> 0 then optind (gopt s) else 1)"
    show ?thesis
    proof (cases "optc = -1")
      case True
      with step show ?thesis by simp
    next
      case False
      obtain r s' where run: "after_getopt ?arg optc k (s\<lparr>gopt := g\<rparr>) = (r, s')" by fastforce
      then have "gopt s' = g" using keeps_goptD [OF same_gopt_after run] by simp
      with getopt_progress [OF g False] Suc.prems have "args_left argv (gopt s') < n" by simp
      with Suc.IH step False run show ?thesis by (cases r) (simp_all add: bindp_run)
    qed
  qed
qed

text \<open>The fuel that \<open>main\<close> gives is enough.\<close>

lemma args_left_start: "args_left argv init_getopt < enough_fuel argv"
  by (cases argv) (simp_all add: args_left_def init_getopt_def enough_fuel_def)

lemma start_main_gopt: "gopt (start_main e argv (init_errmark dr)) = init_getopt"
  by (simp add: start_main_def set_eprint_fh_def Let_def init_states)

text \<open>At most eleven errors are counted.\<close>

lemma handle_option_count: "handle_option arg optc k s = (Inr j, s') \<Longrightarrow> j \<le> Suc k"
proof -
  have "yields (\<lambda>j. j \<le> Suc k) (handle_option arg optc k)"
  proof -
    have ex: "yields (\<lambda>j. j \<le> Suc k) (exitp n)" for n
      by (simp add: yields_def exitp_def)
    show ?thesis
      unfolding handle_option_def
      by (simp only: yields_def [symmetric] split: if_split) (auto intro!: yields_bindp yields_ret ex)
  qed
  then show "handle_option arg optc k s = (Inr j, s') \<Longrightarrow> j \<le> Suc k"
    by (rule yieldsD)
qed

lemma option_loop_count:
  "option_loop n argv k s = (Inr (Some j), s') \<Longrightarrow> k \<le> 11 \<Longrightarrow> j \<le> 11"
proof (induction n arbitrary: k s)
  case 0
  then show ?case by (simp add: ret_run)
next
  case (Suc n)
  show ?case
  proof (cases "k \<le> 10")
    case False
    then show ?thesis using Suc.prems
      by (auto simp: withs_run bindp_run ret_run split: prod.splits sum.splits)
  next
    case True
    obtain optc g where g: "getopt_long ''hVdv'' long_options argv (gopt s) = (optc, g)" by fastforce
    let ?arg = "arg_at argv (if optind (gopt s) \<noteq> 0 then optind (gopt s) else 1)"
    show ?thesis
    proof (cases "optc = -1")
      case True
      with option_loop_Suc [OF \<open>k \<le> 10\<close> g, of n] Suc.prems show ?thesis by auto
    next
      case False
      with option_loop_Suc [OF True g, of n] Suc.prems obtain i t where
        run: "after_getopt ?arg optc k (s\<lparr>gopt := g\<rparr>) = (Inr i, t)" and
        rest: "option_loop n argv i t = (Inr (Some j), s')"
        by (auto simp: bindp_run split: prod.splits sum.splits)
      from run have "i \<le> Suc k"
        by (auto simp: after_getopt_def bindp_run withs_run split: prod.splits sum.splits
            dest!: handle_option_count)
      with Suc.IH [OF rest] True show ?thesis by simp
    qed
  qed
qed

end
