(* ===== verification/Whole_Program.thy ===== *)
theory Whole_Program
  imports Errmark_Main
begin

text \<open>
  Whole runs of the command: command lines of well-formed options followed through the option
  loop, then through \<open>main\<close> into the tracer, and the properties of \<open>main\<close> as a user sees
  them: what a terminal shows, what each descriptor and the copy are given, the exit code.
\<close>

section \<open>Command lines\<close>

text \<open>
  Well-formed options, how they are written as arguments, and what each does. The loop
  followed over the arguments written reads back the options.
\<close>

datatype item =
    Mark_item char char string string
  | Color_item string
  | Copy_item string

fun render :: "item \<Rightarrow> string list" where
  "render (Mark_item c sep st en) = [''--mark='' @ c # sep # st @ sep # en]"
| "render (Color_item nm) = [''--color'', nm]"
| "render (Copy_item f) = [''--copy='' @ f]"

fun item_ok :: "(string \<Rightarrow> bool) \<Rightarrow> item \<Rightarrow> bool" where
  "item_ok ok (Mark_item c sep st en) \<longleftrightarrow>
     (c = CHR ''1'' \<or> c = CHR ''2'') \<and> sep \<noteq> CHR 0x00 \<and> sep \<notin> set st"
| "item_ok ok (Color_item nm) \<longleftrightarrow> lookup_color (Some nm) \<noteq> None"
| "item_ok ok (Copy_item f) \<longleftrightarrow> ok f"

fun apply_item :: "item \<Rightarrow> 'a errmark_scheme \<Rightarrow> 'a errmark_scheme" where
  "apply_item (Mark_item c sep st en) s = store_marks c st en s"
| "apply_item (Color_item nm) s =
     (case lookup_color (Some nm) of None \<Rightarrow> s
      | Some ent \<Rightarrow> s\<lparr>start2 := Some (esc_start ent), end2 := Some (esc_end ent)\<rparr>)"
| "apply_item (Copy_item f) s = upd_cmd (\<lambda>c. c\<lparr>copy_fname := Some f\<rparr>) s"

lemma find_long_names:
  "find_long long_options ''mark'' = Found 4" "find_long long_options ''color'' = Found 5"
  "find_long long_options ''copy'' = Found 6"
  by (simp_all add: find_long_def long_options_def)

definition item_code :: "item \<Rightarrow> int" where
  "item_code it = (case it of Mark_item c sep st en \<Rightarrow> OPT_MARK | Color_item nm \<Rightarrow> OPT_COLOR
     | Copy_item f \<Rightarrow> OPT_COPY)"

definition item_arg :: "item \<Rightarrow> string" where
  "item_arg it = (case it of Mark_item c sep st en \<Rightarrow> c # sep # st @ sep # en | Color_item nm \<Rightarrow> nm
     | Copy_item f \<Rightarrow> f)"

lemma long_options_nth:
  "long_options ! 4 = \<lparr>lname = ''mark'', larg = Required_argument, lval = OPT_MARK\<rparr>"
  "long_options ! 5 = \<lparr>lname = ''color'', larg = Required_argument, lval = OPT_COLOR\<rparr>"
  "long_options ! 6 = \<lparr>lname = ''copy'', larg = Required_argument, lval = OPT_COPY\<rparr>"
  by (simp_all add: long_options_def)

lemma getopt_item:
  assumes "nextchar g = []" "optind g = length pre"
  shows "\<exists>g'. getopt_long ''hVdv'' long_options (pre @ render it @ rest) g = (item_code it, g') \<and>
    optarg g' = Some (item_arg it) \<and> nextchar g' = [] \<and>
    optind g' = length pre + length (render it)"
proof (cases it)
  case (Mark_item c sep st en)
  with assms show ?thesis
    by (simp add: getopt_long_def long_opt_def nth_append find_long_names long_options_nth
        item_code_def item_arg_def Let_def)
next
  case (Color_item nm)
  with assms show ?thesis
    by (simp add: getopt_long_def long_opt_def nth_append find_long_names long_options_nth
        item_code_def item_arg_def Let_def)
next
  case (Copy_item f)
  with assms show ?thesis
    by (simp add: getopt_long_def long_opt_def nth_append find_long_names long_options_nth
        item_code_def item_arg_def Let_def)
qed

lemma schar_letters:
  "schar CHR ''V'' = 86" "schar CHR ''h'' = 104" "schar CHR ''d'' = 100" "schar CHR ''v'' = 118"
  "schar CHR ''?'' = 63"
  by (simp_all add: schar_def)

lemmas opt_values = OPT_MARK_def OPT_COLOR_def OPT_COPY_def OPT_BASE_def schar_letters

lemma handle_item:
  assumes "item_ok ok it" "\<not> debug s" "\<not> verbose s" "optarg (gopt s) = Some (item_arg it)"
  shows "after_getopt arg (item_code it) k s = (Inr k, apply_item it s)"
proof -
  have h: "after_getopt arg (item_code it) k s = handle_option arg (item_code it) k s"
    using assms(2)
    by (cases it) (simp_all add: after_getopt_def debug_optc_def bindp_run withs_run whenp_run
        item_code_def opt_values)
  show ?thesis
  proof (cases it)
    case (Mark_item c sep st en)
    then have "parse_mark_specs (item_arg it) s = (Inr True, apply_item it s)"
      using assms(1,2)
      by (auto simp: item_arg_def scan_marks_def scan_sep_found strndup_def
          intro!: parse_mark_specs_run [where p = "if st = [] then None else Some (st @ sep # en)"
            and n = "length st" and q = "if en = [] then None else Some en" and m = "length en"])
    moreover have "verbose (apply_item it s) = verbose s"
      using Mark_item by (simp add: store_marks_def)
    ultimately show ?thesis
      using assms(3,4) Mark_item unfolding h
      by (simp add: handle_option_def item_code_def opt_values with_optarg_def opt_mark_def
          bindp_run withs_run whenp_run ret_run)
  next
    case (Color_item nm)
    then show ?thesis
      using assms unfolding h
      by (auto simp: handle_option_def item_code_def item_arg_def opt_values with_optarg_def
          opt_color_def setmark_def bindp_run withs_run upd_run ret_run)
  next
    case (Copy_item f)
    then show ?thesis
      using assms unfolding h
      by (simp add: handle_option_def item_code_def item_arg_def opt_values
          bindp_run withs_run upd_run ret_run)
  qed
qed

lemma apply_item_frame:
  "debug (apply_item it s) = debug s" "verbose (apply_item it s) = verbose s"
  "gopt (apply_item it s) = gopt s"
  "apply_item it (s\<lparr>gopt := g\<rparr>) = (apply_item it s)\<lparr>gopt := g\<rparr>"
  by (cases it; simp add: store_marks_def upd_cmd_def split: option.split)+

lemma apply_items_frame:
  "debug (fold apply_item its s) = debug s" "verbose (fold apply_item its s) = verbose s"
  "gopt (fold apply_item its s) = gopt s"
  "fold apply_item its (s\<lparr>gopt := g\<rparr>) = (fold apply_item its s)\<lparr>gopt := g\<rparr>"
  by (induction its arbitrary: s) (simp_all add: apply_item_frame)

text \<open>What follows the options: a command name, or nothing.\<close>

definition command_line :: "string list \<Rightarrow> bool" where
  "command_line cl \<longleftrightarrow> (case cl of [] \<Rightarrow> True | c # as \<Rightarrow> take 1 c \<noteq> ''-'' \<or> length c = 1)"

lemma getopt_stop:
  assumes "nextchar g = []" "optind g = length pre" "command_line cl" "pre \<noteq> []"
  shows "getopt_long ''hVdv'' long_options (pre @ cl) g = (-1, g\<lparr>optarg := None\<rparr>)"
  using assms
  by (cases cl) (auto simp: getopt_long_def command_line_def nth_append Let_def split: if_splits)

lemma option_loop_prefix:
  assumes "list_all (item_ok ok) its" "\<not> debug s" "\<not> verbose s"
    and "nextchar (gopt s) = []" "optind (gopt s) = length pre"
  shows "\<exists>g. option_loop (length its + n) (pre @ concat (map render its) @ rest) 0 s =
      option_loop n (pre @ concat (map render its) @ rest) 0 ((fold apply_item its s)\<lparr>gopt := g\<rparr>) \<and>
    nextchar g = [] \<and> optind g = length (pre @ concat (map render its))"
  using assms
proof (induction its arbitrary: pre s)
  case Nil
  then show ?case by (intro exI [of _ "gopt s"]) simp
next
  case (Cons it its)
  let ?rest = "concat (map render its) @ rest"
  from getopt_item [OF Cons.prems(4,5), of it ?rest] obtain g where
    g: "getopt_long ''hVdv'' long_options (pre @ render it @ ?rest) (gopt s) = (item_code it, g)"
      "optarg g = Some (item_arg it)" "nextchar g = []" "optind g = length (pre @ render it)"
    by auto
  let ?s = "(apply_item it s)\<lparr>gopt := g\<rparr>"
  have "after_getopt arg (item_code it) 0 (s\<lparr>gopt := g\<rparr>) = (Inr 0, ?s)" for arg
    using handle_item [of ok it "s\<lparr>gopt := g\<rparr>"] Cons.prems(1-3) g(2)
    by (simp add: apply_item_frame)
  moreover have "item_code it \<noteq> -1" by (cases it) (simp_all add: item_code_def opt_values)
  ultimately have step: "option_loop (Suc (length its + n)) (pre @ render it @ ?rest) 0 s =
      option_loop (length its + n) ((pre @ render it) @ ?rest) 0 ?s"
    by (simp add: option_loop_Suc [OF _ g(1)] bindp_run del: option_loop.simps)
  from Cons.IH [of ?s "pre @ render it"] Cons.prems g obtain g' where
    "option_loop (length its + n) ((pre @ render it) @ ?rest) 0 ?s =
      option_loop n ((pre @ render it) @ ?rest) 0 ((fold apply_item its ?s)\<lparr>gopt := g'\<rparr>)"
    "nextchar g' = []" "optind g' = length ((pre @ render it) @ concat (map render its))"
    by (auto simp: apply_item_frame)
  with step show ?case
    by (intro exI [of _ g']) (simp add: apply_items_frame del: option_loop.simps)
qed

lemma option_loop_items:
  assumes "list_all (item_ok ok) its" "command_line cl" "\<not> debug s" "\<not> verbose s"
    and "nextchar (gopt s) = []" "optind (gopt s) = length pre" "pre \<noteq> []" "length its < n"
  shows "\<exists>g. option_loop n (pre @ concat (map render its) @ cl) 0 s =
      (Inr (Some 0), (fold apply_item its s)\<lparr>gopt := g\<rparr>) \<and>
    optind g = length (pre @ concat (map render its))"
proof -
  let ?argv = "(pre @ concat (map render its)) @ cl"
  obtain m where n: "n = length its + Suc m" using less_imp_Suc_add [OF assms(8)] by auto
  from option_loop_prefix [OF assms(1,3-6), of "Suc m" cl] obtain g where
    run: "option_loop n ?argv 0 s = option_loop (Suc m) ?argv 0 ((fold apply_item its s)\<lparr>gopt := g\<rparr>)"
    and g: "nextchar g = []" "optind g = length (pre @ concat (map render its))"
    unfolding n by (auto simp del: option_loop.simps)
  from getopt_stop [OF g assms(2)] assms(7) have
    "getopt_long ''hVdv'' long_options ?argv g = (-1, g\<lparr>optarg := None\<rparr>)" by simp
  then have "option_loop (Suc m) ?argv 0 ((fold apply_item its s)\<lparr>gopt := g\<rparr>) =
      (Inr (Some 0), (fold apply_item its s)\<lparr>gopt := g\<lparr>optarg := None\<rparr>\<rparr>)"
    using option_loop_Suc [of 0 ?argv "(fold apply_item its s)\<lparr>gopt := g\<rparr>" "-1" _ m]
    by (simp del: option_loop.simps)
  with run g show ?thesis
    by (intro exI [of _ "g\<lparr>optarg := None\<rparr>"]) (simp del: option_loop.simps)
qed

lemma fuel_items: "length its < enough_fuel (p # concat (map render its) @ cl)"
proof -
  have "length its \<le> (\<Sum>a \<leftarrow> concat (map render its). Suc (length a))"
  proof (induction its)
    case (Cons it its)
    then show ?case by (cases it) auto
  qed simp
  then show ?thesis by (simp add: enough_fuel_def)
qed

section \<open>What the options ask for\<close>

text \<open>The start and end marks of each descriptor, and the file to copy to.\<close>

fun item_marks :: "item \<Rightarrow> (int \<Rightarrow> string \<times> string) \<Rightarrow> int \<Rightarrow> string \<times> string" where
  "item_marks (Mark_item c sep st en) m = m((if c = CHR ''1'' then 1 else 2) := (st, en))"
| "item_marks (Color_item nm) m =
     (case lookup_color (Some nm) of None \<Rightarrow> m | Some ent \<Rightarrow> m(2 := (esc_start ent, esc_end ent)))"
| "item_marks (Copy_item f) m = m"

definition marks_of :: "item list \<Rightarrow> int \<Rightarrow> string \<times> string" where
  "marks_of its = fold item_marks its (\<lambda>_. ([], []))"

fun item_copy :: "item \<Rightarrow> string option \<Rightarrow> string option" where
  "item_copy (Copy_item f) c = Some f"
| "item_copy _ c = c"

definition copy_of :: "item list \<Rightarrow> string option" where
  "copy_of its = fold item_copy its None"

definition opt_text :: "string option \<Rightarrow> string" where
  "opt_text t = (case t of None \<Rightarrow> [] | Some x \<Rightarrow> x)"

lemma mark_texts:
  "start_text s fd = (if fd = 1 then opt_text (start1 s) else if fd = 2 then opt_text (start2 s) else [])"
  "end_text s fd = (if fd = 1 then opt_text (end1 s) else if fd = 2 then opt_text (end2 s) else [])"
  by (simp_all add: start_mark_def end_mark_def opt_text_def split: option.split)

lemma opt_text_Some [simp]: "opt_text (Some x) = x"
  by (simp add: opt_text_def)

definition has_marks :: "'a errmark_scheme \<Rightarrow> (int \<Rightarrow> string \<times> string) \<Rightarrow> bool" where
  "has_marks s m \<longleftrightarrow>
     m = (\<lambda>fd. if fd = 1 then (opt_text (start1 s), opt_text (end1 s))
          else if fd = 2 then (opt_text (start2 s), opt_text (end2 s)) else ([], []))"

lemma has_marks_gopt: "has_marks (s\<lparr>gopt := g\<rparr>) m = has_marks s m"
  unfolding has_marks_def by (simp cong: if_cong)

lemma has_marks_texts: "has_marks s m \<Longrightarrow> start_text s fd = fst (m fd) \<and> end_text s fd = snd (m fd)"
  by (simp add: has_marks_def mark_texts)

lemma has_marks_item: "has_marks s m \<Longrightarrow> has_marks (apply_item it s) (item_marks it m)"
  unfolding has_marks_def
  by (cases it) (simp_all add: store_marks_def upd_cmd_def fun_eq_iff split: option.split)

lemma has_marks_items: "has_marks s m \<Longrightarrow> has_marks (fold apply_item its s) (fold item_marks its m)"
  by (induction its arbitrary: s m) (simp_all add: has_marks_item)

lemma copy_items: "copy_fname (cmd (fold apply_item its s)) = fold item_copy its (copy_fname (cmd s))"
proof (induction its arbitrary: s)
  case (Cons it its)
  then show ?case
    by (cases it) (auto simp: store_marks_def upd_cmd_def split: option.split)
qed simp

text \<open>What else of the state the options leave.\<close>

definition untouched :: "'a errmark_scheme \<Rightarrow> _" where
  "untouched s = (io.truncate s, debug s, verbose s, trace_fbt (cmd s))"

lemma untouched_items: "untouched (fold apply_item its s) = untouched s"
proof (induction its arbitrary: s)
  case (Cons it its)
  then show ?case
    by (cases it) (auto simp: store_marks_def upd_cmd_def untouched_def io.defs split: option.split)
qed simp

lemma copy_of_ok: "list_all (item_ok ok) its \<Longrightarrow> copy_of its = Some f \<Longrightarrow> ok f"
proof -
  have "list_all (item_ok ok) its \<Longrightarrow> fold item_copy its c = Some f \<Longrightarrow> c = Some f \<or> ok f" for c
  proof (induction its arbitrary: c)
    case (Cons it its)
    from Cons.prems Cons.IH [of "item_copy it c"] show ?case by (cases it) auto
  qed simp
  then show "list_all (item_ok ok) its \<Longrightarrow> copy_of its = Some f \<Longrightarrow> ok f"
    by (force simp: copy_of_def)
qed

section \<open>The whole program\<close>

lemma case_ret [simp]:
  "(case x of (Inl h, s') \<Rightarrow> (Inl h, s') | (Inr a, s') \<Rightarrow> ret a s') = x"
  by (simp add: ret_run split: prod.split sum.split)

lemma bindp_unit: "bindp m (\<lambda>_. ret ()) = m"
  by (rule ext) (simp add: bindp_run ret_run split: prod.split sum.split)

text \<open>The state in which the command is run.\<close>

definition launch :: "string list \<Rightarrow> 'a errmark_scheme \<Rightarrow> 'a errmark_scheme" where
  "launch argv s =
     (let i = optind (gopt s); f = copy_fname (cmd s);
          s = upd_cmd (\<lambda>c. c\<lparr>cverbose := False, cdebug := False, cmd_path := arg_at argv i,
            cmd_name := sname (arg_at argv i), cargc := int (length argv) - int i,
            cargv := drop i argv, nullify := True, slow := True, copy_fh := None\<rparr>) s in
      case f of None \<Rightarrow> s
      | Some nm \<Rightarrow> upd_cmd (\<lambda>c. c\<lparr>copy_fh := Some (Opened nm)\<rparr>) (fopen_w nm s))"

lemma finish_main_launch:
  assumes "\<not> debug s" "\<not> verbose s" "argv \<noteq> []" "\<And>f. copy_fname (cmd s) = Some f \<Longrightarrow> can_open e f"
  shows "finish_main e argv 0 s = run_command (fork e) (launch argv s)"
proof -
  have v: "s\<lparr>verbose := False\<rparr> = s" using assms(2) by simp
  show ?thesis
    using assms
    by (cases "copy_fname (cmd s)")
      (simp_all add: finish_main_def set_verbose_def set_command_def open_copy_def try_fopen_def
        launch_def bindp_unit Let_def whenp_def withs_run bindp_run upd_run ret_run upd_cmd_def v
        fopen_w_def)
qed

text \<open>Once the run has returned \<open>n\<close>, the process exits with \<open>n\<close> shifted right by 8 bits.\<close>

lemma run_command_exit:
  assumes "errmark_run_program fk s = (Inr (Some n), t)" "outcome k ws rs s t"
  shows "\<exists>t. run_command fk s = (Inl (Exit (drop_bit 8 n)), flush_all t) \<and> outcome k ws rs s t"
proof (intro exI conjI)
  let ?t = "upd_cmd (\<lambda>c. c\<lparr>child_status := n\<rparr>) t"
  show "run_command fk s = (Inl (Exit (drop_bit 8 n)), flush_all ?t)"
    by (simp add: run_command_def bindp_run assms(1) upd_run exitp_def)
  show "outcome k ws rs s ?t" using assms(2) by (simp add: outcome_def frame_simps)
qed

lemma run_command_ended:
  assumes "plain s" "\<not> cverbose (cmd s)" "list_all proper as" "child_ended (wait_status ev)"
  shows "\<exists>t. run_command (In_parent pid (concat (map rounds as) @ [ev])) s =
      (Inl (Exit (drop_bit 8 (wait_status ev))), flush_all t) \<and>
    outcome 2 (concat (map writes_of as)) (concat (map requests_of as)) s t"
  using run_ended_outcome [OF assms, of pid] run_command_exit by blast

lemma run_command_gone:
  assumes "plain s" "\<not> cverbose (cmd s)" "list_all proper as" "as \<noteq> []" "gone ev"
  shows "\<exists>t. run_command (In_parent pid (concat (map rounds as) @ [ev])) s =
      (Inl (Exit 0), flush_all t) \<and>
    outcome 1 (concat (map writes_of as)) (concat (map requests_of as) @ [PTRACE_GETREGS]) s t"
proof -
  from run_gone_outcome [OF assms, of pid] obtain t where
    "errmark_run_program (In_parent pid (concat (map rounds as) @ [ev])) s = (Inr (Some 0), t)"
    "outcome 1 (concat (map writes_of as)) (concat (map requests_of as) @ [PTRACE_GETREGS]) s t"
    by blast
  from run_command_exit [OF this] show ?thesis by simp
qed

lemma run_command_over:
  assumes "plain s" "\<not> cverbose (cmd s)" "list_all proper as" "over as ev"
  shows "\<exists>n t. run_command (In_parent pid (concat (map rounds as) @ [ev])) s = (Inl (Exit n), flush_all t) \<and>
    outcome (if child_ended (wait_status ev) then 2 else 1) (concat (map writes_of as))
      (concat (map requests_of as) @ (if child_ended (wait_status ev) then [] else [PTRACE_GETREGS])) s t"
  using run_over_outcome [OF assms, of pid] run_command_exit by blast

lemma launch_facts:
  assumes "untouched s = untouched (start_main e argv (init_errmark dr))"
  shows "drain (launch argv s) = dr" "clib (launch argv s) = clib s"
    "plain (launch argv s)" "\<not> cverbose (cmd (launch argv s))" "tty_flow (launch argv s) = []"
    "start_mark (launch argv s) = start_mark s" "end_mark (launch argv s) = end_mark s"
    "copy_fh (cmd (launch argv s)) = map_option Opened (copy_fname (cmd s))"
    "opened (launch argv s) = map Opened (case copy_fname (cmd s) of None \<Rightarrow> [] | Some f \<Rightarrow> [f])"
    "flow st (launch argv s) = []"
proof -
  have u: "\<not> debug s" "trace_fbt (cmd s) = None" "opened s = []" "written s = []" "pending s = (\<lambda>_. [])"
    "drain s = dr"
    using assms
    by (simp_all add: untouched_def io.defs start_main_def set_eprint_fh_def init_states Let_def)
  show "drain (launch argv s) = dr" "clib (launch argv s) = clib s"
    "plain (launch argv s)" "\<not> cverbose (cmd (launch argv s))" "tty_flow (launch argv s) = []"
    "copy_fh (cmd (launch argv s)) = map_option Opened (copy_fname (cmd s))"
    "opened (launch argv s) = map Opened (case copy_fname (cmd s) of None \<Rightarrow> [] | Some f \<Rightarrow> [f])"
    "flow st (launch argv s) = []"
    using u by (simp_all add: launch_def plain_def quiet_def upd_cmd_def fopen_w_def tty_flow_def
        tty_def flow_def content_def Let_def split: option.split)
  show "start_mark (launch argv s) = start_mark s" "end_mark (launch argv s) = end_mark s"
    by (simp_all add: fun_eq_iff start_mark_def end_mark_def launch_def upd_cmd_def fopen_w_def Let_def
        split: option.split)
qed

lemma apply_items_kept:
  "requests (fold apply_item its s) = requests s" "errprint_fh (fold apply_item its s) = errprint_fh s"
  "program_name (fold apply_item its s) = program_name s" "clib (fold apply_item its s) = clib s"
  "dbgprint_fh (fold apply_item its s) = dbgprint_fh s"
proof (induction its arbitrary: s)
  case (Cons it its)
  case 1 then show ?case using Cons by (cases it) (auto simp: store_marks_def upd_cmd_def split: option.split)
  case 2 then show ?case using Cons by (cases it) (auto simp: store_marks_def upd_cmd_def split: option.split)
  case 3 then show ?case using Cons by (cases it) (auto simp: store_marks_def upd_cmd_def split: option.split)
  case 4 then show ?case using Cons by (cases it) (auto simp: store_marks_def upd_cmd_def split: option.split)
  case 5 then show ?case using Cons by (cases it) (auto simp: store_marks_def upd_cmd_def split: option.split)
qed simp_all

text \<open>The option loop of \<open>main\<close> on a command line of well-formed options and a command.\<close>

lemma main_options:
  assumes "list_all (item_ok ok) its" "command_line cl"
    and "argv = p # concat (map render its) @ cl"
  shows "\<exists>s. option_loop (enough_fuel argv) argv 0 (start_main e argv (init_errmark dr)) = (Inr (Some 0), s) \<and>
    untouched s = untouched (start_main e argv (init_errmark dr)) \<and> has_marks s (marks_of its) \<and>
    copy_fname (cmd s) = copy_of its \<and> optind (gopt s) = length (p # concat (map render its)) \<and>
    errprint_fh s = errprint_fh (start_main e argv (init_errmark dr)) \<and> requests s = [] \<and>
    clib s = plain_libc"
proof -
  define s0 where "s0 = start_main e argv (init_errmark dr)"
  have s0: "\<not> debug s0" "\<not> verbose s0" "nextchar (gopt s0) = []" "optind (gopt s0) = length [p]"
    "has_marks s0 (\<lambda>_. ([], []))" "copy_fname (cmd s0) = None" "requests s0 = []"
    "clib s0 = plain_libc"
    by (simp_all add: s0_def start_main_def set_eprint_fh_def Let_def init_states init_getopt_def
        has_marks_def opt_text_def fun_eq_iff)
  from option_loop_items [OF assms(1,2) s0(1-4) _ fuel_items [of its p cl]] obtain g where
    loop: "option_loop (enough_fuel argv) argv 0 s0 = (Inr (Some 0), (fold apply_item its s0)\<lparr>gopt := g\<rparr>)"
    and g: "optind g = length (p # concat (map render its))"
    unfolding assms(3) by auto
  show ?thesis
    using untouched_items [of its s0] has_marks_items [OF s0(5), of its] copy_items [of its s0] s0
      loop g
    by (simp add: s0_def [symmetric] untouched_def has_marks_gopt marks_of_def copy_of_def
        apply_items_frame apply_items_kept io.defs)
qed

lemma main_launch:
  assumes "list_all (item_ok (can_open e)) its" "command_line cl"
    and "argv = p # concat (map render its) @ cl"
  shows "\<exists>s. main_prog e argv (init_errmark dr) = run_command (fork e) (launch argv s) \<and>
    untouched s = untouched (start_main e argv (init_errmark dr)) \<and> has_marks s (marks_of its) \<and>
    copy_fname (cmd s) = copy_of its \<and> optind (gopt s) = length (p # concat (map render its)) \<and>
    clib s = plain_libc"
proof -
  from main_options [OF assms, of e dr] obtain s where
    loop: "option_loop (enough_fuel argv) argv 0 (start_main e argv (init_errmark dr)) = (Inr (Some 0), s)" and
    s: "untouched s = untouched (start_main e argv (init_errmark dr))" "has_marks s (marks_of its)"
      "copy_fname (cmd s) = copy_of its" "optind (gopt s) = length (p # concat (map render its))"
      "clib s = plain_libc"
    by blast
  have "debug s = False \<and> verbose s = False"
    using s(1) by (simp add: untouched_def start_main_def set_eprint_fh_def Let_def init_states)
  then have "finish_main e argv 0 s = run_command (fork e) (launch argv s)"
    using s(3) assms(3) copy_of_ok [OF assms(1)] by (intro finish_main_launch) auto
  then have "main_prog e argv (init_errmark dr) = run_command (fork e) (launch argv s)"
    by (simp add: main_prog_def bindp_run upd_run loop)
  with s show ?thesis by blast
qed

text \<open>The state in which a command line of well-formed options runs the command.\<close>

lemma main_ready:
  assumes "list_all (item_ok (can_open e)) its" "command_line cl"
  shows "\<exists>s. main_prog e (p # concat (map render its) @ cl) (init_errmark dr) = run_command (fork e) s \<and>
    plain s \<and> \<not> cverbose (cmd s) \<and> tty_flow s = [] \<and> (\<forall>st. flow st s = []) \<and>
    (\<forall>fd. start_text s fd = fst (marks_of its fd)) \<and> (\<forall>fd. end_text s fd = snd (marks_of its fd)) \<and>
    copy_fh (cmd s) = map_option Opened (copy_of its) \<and>
    opened s = map Opened (case copy_of its of None \<Rightarrow> [] | Some f \<Rightarrow> [f]) \<and>
    drain s = dr \<and> clib s = plain_libc"
proof -
  let ?argv = "p # concat (map render its) @ cl"
  from main_launch [OF assms refl, of p dr] obtain s where
    run: "main_prog e ?argv (init_errmark dr) = run_command (fork e) (launch ?argv s)" and
    s: "untouched s = untouched (start_main e ?argv (init_errmark dr))" "has_marks s (marks_of its)"
      "copy_fname (cmd s) = copy_of its" "clib s = plain_libc"
    by blast
  then show ?thesis
    using launch_facts [OF s(1)] has_marks_texts [OF s(2)]
    by (intro exI [of _ "launch ?argv s"]) simp
qed

section \<open>Properties\<close>

text \<open>
  C1: the whole program, for a command line of well-formed options and a command, whose child
  makes system calls and then ends as \<open>ev\<close> says. The process exits with the child's status
  shifted right by eight bits, and a terminal that is stdout and stderr has shown every
  maximal run of the child's writes to one descriptor between the marks that the options gave
  that descriptor, in order and once each; the last end mark is repeated twice.
\<close>

theorem main_session:
  assumes "list_all (item_ok (can_open e)) its" "command_line cl"
    and "fork e = In_parent pid (concat (map rounds as) @ [ev])"
    and "list_all proper as" "child_ended (wait_status ev)"
  shows "\<exists>s'. main_prog e (p # concat (map render its) @ cl) (init_errmark dr) =
      (Inl (Exit (drop_bit 8 (wait_status ev))), s') \<and>
    tty s' =
      bracketed (\<lambda>fd. fst (marks_of its fd)) (\<lambda>fd. snd (marks_of its fd)) (runs (concat (map writes_of as))) @
      concat (replicate 2 (snd (marks_of its (last_fd (-1) (concat (map writes_of as))))))"
proof -
  from main_ready [OF assms(1,2), of p dr] obtain s where
    "main_prog e (p # concat (map render its) @ cl) (init_errmark dr) = run_command (fork e) s" and
    s: "plain s" "\<not> cverbose (cmd s)" "tty_flow s = []"
      "\<forall>fd. start_text s fd = fst (marks_of its fd)" "\<forall>fd. end_text s fd = snd (marks_of its fd)"
    by blast
  then show ?thesis
    using run_command_ended [OF s(1,2) assms(4,5), of pid]
    by (auto simp: assms(3) outcome_def tty_flush_all)
qed

theorem main_session_witness:
  "\<exists>s'. main_prog \<lparr>stat1 = None, stat2 = None, can_open = (\<lambda>_. True),
       fork = In_parent 7 (concat (map rounds demo_run) @ [demo_exit])\<rparr>
     (''errmark'' # concat (map render [Mark_item CHR ''2'' CHR ''/'' ''<b>'' ''</b>'']) @ [''ls'', ''x''])
     (init_errmark usual_drain) = (Inl (Exit 1), s') \<and> tty s' = ''<b>ABC</b></b></b>''"
  using main_session [where e = "\<lparr>stat1 = None, stat2 = None, can_open = (\<lambda>_. True),
       fork = In_parent 7 (concat (map rounds demo_run) @ [demo_exit])\<rparr>"
     and its = "[Mark_item CHR ''2'' CHR ''/'' ''<b>'' ''</b>'']" and cl = "[''ls'', ''x'']"
     and p = "''errmark''", OF _ _ _ demo_ok(3,4)]
  by (simp add: demo_writes command_line_def marks_of_def bracketed_def numeral_2_eq_2)
    (simp add: demo_exit_def round_def)

text \<open>
  C2: the same for a child that left with status 0, after which \<open>wait\<close> stores 0 and the next
  request finds the child gone: the process exits with 0, and the last end mark is repeated
  once.
\<close>

theorem main_session_success:
  assumes "list_all (item_ok (can_open e)) its" "command_line cl"
    and "fork e = In_parent pid (concat (map rounds as) @ [ev])"
    and "list_all proper as" "as \<noteq> []" "gone ev"
  shows "\<exists>s'. main_prog e (p # concat (map render its) @ cl) (init_errmark dr) = (Inl (Exit 0), s') \<and>
    tty s' =
      bracketed (\<lambda>fd. fst (marks_of its fd)) (\<lambda>fd. snd (marks_of its fd)) (runs (concat (map writes_of as))) @
      snd (marks_of its (last_fd (-1) (concat (map writes_of as))))"
proof -
  from main_ready [OF assms(1,2), of p dr] obtain s where
    "main_prog e (p # concat (map render its) @ cl) (init_errmark dr) = run_command (fork e) s" and
    s: "plain s" "\<not> cverbose (cmd s)" "tty_flow s = []"
      "\<forall>fd. start_text s fd = fst (marks_of its fd)" "\<forall>fd. end_text s fd = snd (marks_of its fd)"
    by blast
  then show ?thesis
    using run_command_gone [OF s(1,2) assms(4-6), of pid]
    by (auto simp: assms(3) outcome_def tty_flush_all)
qed

theorem main_session_success_witness:
  "\<exists>s'. main_prog \<lparr>stat1 = None, stat2 = None, can_open = (\<lambda>_. True), fork = In_parent 7
       (concat (map rounds demo_run) @ [demo_exit\<lparr>wait_status := 0, getregs := Inl ESRCH\<rparr>])\<rparr>
     (''errmark'' # concat (map render [Mark_item CHR ''2'' CHR ''/'' ''<b>'' ''</b>'']) @ [''ls'', ''x''])
     (init_errmark usual_drain) = (Inl (Exit 0), s') \<and> tty s' = ''<b>ABC</b></b>''"
proof -
  have "demo_run \<noteq> []" by (simp add: demo_run_def)
  moreover have "gone (demo_exit\<lparr>wait_status := 0, getregs := Inl ESRCH\<rparr>)" by (simp add: gone_def)
  ultimately show ?thesis
    using main_session_success [where e = "\<lparr>stat1 = None, stat2 = None, can_open = (\<lambda>_. True),
         fork = In_parent 7 (concat (map rounds demo_run) @
           [demo_exit\<lparr>wait_status := 0, getregs := Inl ESRCH\<rparr>])\<rparr>"
       and its = "[Mark_item CHR ''2'' CHR ''/'' ''<b>'' ''</b>'']" and cl = "[''ls'', ''x'']"
       and p = "''errmark''", OF _ _ _ demo_ok(3)]
    by (simp add: demo_writes command_line_def marks_of_def bracketed_def)
qed

text \<open>
  C3: what each descriptor has been given when the process has exited. All the child's data,
  also what it wrote to descriptor 2, goes to descriptor 1, with the marks of descriptor 1
  around its own runs; descriptor 2 is given the marks of descriptor 2 and no data. The output
  is the one intended only where both are the same terminal. The last end mark is repeated
  twice, or once after a child that left with status 0.
\<close>

theorem main_streams:
  assumes "list_all (item_ok (can_open e)) its" "command_line cl"
    and "fork e = In_parent pid (concat (map rounds as) @ [ev])"
    and "list_all proper as" "over as ev"
    and "ws = concat (map writes_of as)" "k = (if child_ended (wait_status ev) then 2 else 1)"
    and "s' = snd (main_prog e (p # concat (map render its) @ cl) (init_errmark dr))"
  shows "content Stdout s' =
      bracketed (own Stdout (\<lambda>fd. fst (marks_of its fd))) (own Stdout (\<lambda>fd. snd (marks_of its fd))) (runs ws) @
      concat (replicate k (own Stdout (\<lambda>fd. snd (marks_of its fd)) (last_fd (-1) ws))) \<and>
    content Stderr s' =
      bracketed (own Stderr (\<lambda>fd. fst (marks_of its fd))) (own Stderr (\<lambda>fd. snd (marks_of its fd)))
        (runs (map (\<lambda>w. (fst w, [])) ws)) @
      concat (replicate k (own Stderr (\<lambda>fd. snd (marks_of its fd)) (last_fd (-1) ws)))"
proof -
  from main_ready [OF assms(1,2), of p dr] obtain s where
    run: "main_prog e (p # concat (map render its) @ cl) (init_errmark dr) = run_command (fork e) s" and
    s: "plain s" "\<not> cverbose (cmd s)" "\<forall>st. flow st s = []"
      "\<forall>fd. start_text s fd = fst (marks_of its fd)" "\<forall>fd. end_text s fd = snd (marks_of its fd)"
    by blast
  from run_command_over [OF s(1,2) assms(4,5), of pid] obtain t where
    "s' = flush_all t" "outcome k ws (concat (map requests_of as) @
       (if child_ended (wait_status ev) then [] else [PTRACE_GETREGS])) s t"
    unfolding assms(7) by (auto simp: assms(3,6,8) run)
  then show ?thesis using s by (simp add: outcome_def flush_all_complete carried_def)
qed

theorem main_streams_witness:
  "\<exists>s'. s' = snd (main_prog \<lparr>stat1 = None, stat2 = None, can_open = (\<lambda>_. True),
       fork = In_parent 7 (concat (map rounds demo_run) @ [demo_exit])\<rparr>
     (''errmark'' # concat (map render [Mark_item CHR ''2'' CHR ''/'' ''<b>'' ''</b>'']) @ [''ls'', ''x''])
     (init_errmark usual_drain)) \<and> content Stdout s' = ''ABC'' \<and> content Stderr s' = ''<b></b></b></b>''"
  using main_streams [where e = "\<lparr>stat1 = None, stat2 = None, can_open = (\<lambda>_. True),
       fork = In_parent 7 (concat (map rounds demo_run) @ [demo_exit])\<rparr>"
     and its = "[Mark_item CHR ''2'' CHR ''/'' ''<b>'' ''</b>'']" and cl = "[''ls'', ''x'']"
     and p = "''errmark''", OF _ _ _ demo_ok(3) demo_over(1) refl refl refl]
  by (simp add: demo_writes command_line_def marks_of_def bracketed_def own_def numeral_2_eq_2 demo_ok(4))

text \<open>
  C4: with \<open>--copy\<close>, the file named last holds, when the process has exited, exactly the data
  that the child wrote to descriptor 2, in order and without the marks.
\<close>

theorem main_copies_stderr:
  assumes "list_all (item_ok (can_open e)) its" "command_line cl"
    and "fork e = In_parent pid (concat (map rounds as) @ [ev])"
    and "list_all proper as" "over as ev" "copy_of its = Some f"
  shows "content (Opened f) (snd (main_prog e (p # concat (map render its) @ cl) (init_errmark dr))) =
    stderr_data (concat (map writes_of as))"
proof -
  from main_ready [OF assms(1,2), of p dr] obtain s where
    "main_prog e (p # concat (map render its) @ cl) (init_errmark dr) = run_command (fork e) s" and
    s: "plain s" "\<not> cverbose (cmd s)" "\<forall>st. flow st s = []"
      "copy_fh (cmd s) = Some (Opened f)" "opened s = [Opened f]"
    using assms(6) by auto
  then show ?thesis
    using run_command_over [OF s(1,2) assms(4,5), of pid]
    by (auto simp: assms(3) outcome_def flush_all_complete)
qed

theorem main_copies_stderr_witness:
  "content (Opened ''errs'') (snd (main_prog \<lparr>stat1 = None, stat2 = None, can_open = (\<lambda>_. True),
       fork = In_parent 7 (concat (map rounds demo_run) @ [demo_exit])\<rparr>
     (''errmark'' # concat (map render [Color_item ''red'', Copy_item ''errs'']) @ [''ls'']) (init_errmark usual_drain))) =
   ''ABC''"
  using main_copies_stderr [where e = "\<lparr>stat1 = None, stat2 = None, can_open = (\<lambda>_. True),
       fork = In_parent 7 (concat (map rounds demo_run) @ [demo_exit])\<rparr>"
     and its = "[Color_item ''red'', Copy_item ''errs'']" and cl = "[''ls'']"
     and p = "''errmark''", OF _ _ _ demo_ok(3) demo_over(1)]
  by (simp add: demo_writes command_line_def copy_of_def stderr_data_def lookup_color_def
      normal_colors_def)

text \<open>
  C21: the options written on a command line are read back: the option loop counts no error,
  stops at the command, and has set the start and end marks of each descriptor and the file
  to copy to as the options say, the last one winning.
\<close>

theorem options_read_back:
  assumes "list_all (item_ok (can_open e)) its" "command_line cl"
    and "argv = p # concat (map render its) @ cl"
  shows "\<exists>s. option_loop (enough_fuel argv) argv 0 (start_main e argv (init_errmark dr)) = (Inr (Some 0), s) \<and>
    has_marks s (marks_of its) \<and> copy_fname (cmd s) = copy_of its \<and>
    drop (optind (gopt s)) argv = cl"
  using main_options [OF assms, of e dr] assms(3) by (auto simp del: option_loop.simps)

theorem options_read_back_witness:
  "\<exists>s. option_loop (enough_fuel [''errmark'', ''--mark=1/a/b'', ''--color'', ''red'', ''ls''])
      [''errmark'', ''--mark=1/a/b'', ''--color'', ''red'', ''ls''] 0
      (start_main \<lparr>stat1 = None, stat2 = None, can_open = (\<lambda>_. True), fork = In_child 0 (\<lambda>_ _. None)\<rparr>
        [''errmark'', ''--mark=1/a/b'', ''--color'', ''red'', ''ls''] (init_errmark usual_drain)) = (Inr (Some 0), s) \<and>
    has_marks s (marks_of [Mark_item CHR ''1'' CHR ''/'' ''a'' ''b'', Color_item ''red'']) \<and>
    copy_fname (cmd s) = copy_of [Mark_item CHR ''1'' CHR ''/'' ''a'' ''b'', Color_item ''red''] \<and>
    drop (optind (gopt s)) [''errmark'', ''--mark=1/a/b'', ''--color'', ''red'', ''ls''] = [''ls'']"
  by (rule options_read_back [where p = "''errmark''"])
    (simp_all add: command_line_def lookup_color_def normal_colors_def)

text \<open>
  The option loop ends on every command line: the fuel that \<open>main\<close> gives it, one more
  than the length of the arguments with their terminators, is never used up. When it returns,
  at most eleven errors were counted.
\<close>

lemma option_loop_ends:
  "fst (option_loop (enough_fuel argv) argv 0 (s\<lparr>gopt := init_getopt\<rparr>)) \<noteq> Inr None \<and>
   fst (option_loop (enough_fuel argv) argv 0 (s\<lparr>gopt := init_getopt\<rparr>)) \<notin> Inr ` Some ` {12..}"
proof
  let ?s = "s\<lparr>gopt := init_getopt\<rparr>"
  have "args_left argv (gopt ?s) < enough_fuel argv" by (simp add: args_left_start)
  then show "fst (option_loop (enough_fuel argv) argv 0 ?s) \<noteq> Inr None"
    by (rule option_loop_fuel)
  show "fst (option_loop (enough_fuel argv) argv 0 ?s) \<notin> Inr ` Some ` {12..}"
  proof
    assume "fst (option_loop (enough_fuel argv) argv 0 ?s) \<in> Inr ` Some ` {12..}"
    then obtain j s' where "option_loop (enough_fuel argv) argv 0 ?s = (Inr (Some j), s')" "12 \<le> j"
      by (cases "option_loop (enough_fuel argv) argv 0 ?s") auto
    with option_loop_count [OF this(1)] show False by simp
  qed
qed

text \<open>The status word of each class of ends.\<close>

definition status_word :: "wait_class \<Rightarrow> int" where
  "status_word c = (case c of
       Exited n \<Rightarrow> n * 256
     | Killed sig core \<Rightarrow> sig + (if core then 128 else 0)
     | Stopped sig \<Rightarrow> sig * 256 + 127
     | Continued \<Rightarrow> 0xffff
     | wait_class.Other \<Rightarrow> 0xff)"

text \<open>
  C23: the exit code. Of a child that exited, the process passes on the exit code; of a child
  killed by a signal it exits with 0, as for success; of a child stopped by a signal it exits
  with the signal's number, with the child still there.
\<close>

theorem exit_code:
  assumes "plain s" "\<not> cverbose (cmd s)" "list_all proper as"
    and "wait_status ev = status_word c" "child_ended (status_word c)"
    and "case c of Killed sig core \<Rightarrow> 0 < sig \<and> sig < 127 | _ \<Rightarrow> True"
  shows "fst (run_command (In_parent pid (concat (map rounds as) @ [ev])) s) =
    Inl (Exit (case c of Exited n \<Rightarrow> n | Killed sig core \<Rightarrow> 0 | Stopped sig \<Rightarrow> sig
      | Continued \<Rightarrow> 255 | wait_class.Other \<Rightarrow> 0))"
proof -
  have "fst (run_command (In_parent pid (concat (map rounds as) @ [ev])) s) =
      Inl (Exit (status_word c div 256))"
    using run_command_ended [OF assms(1-3), of ev pid] assms(4,5)
    by (auto simp: drop_bit_eq_div)
  moreover have "status_word c div 256 = (case c of Exited n \<Rightarrow> n | Killed sig core \<Rightarrow> 0
      | Stopped sig \<Rightarrow> sig | Continued \<Rightarrow> 255 | wait_class.Other \<Rightarrow> 0)"
    using assms(6) by (cases c) (simp_all add: status_word_def)
  ultimately show ?thesis by simp
qed

theorem exit_code_witness:
  "fst (run_command (In_parent 7 (concat (map rounds demo_run) @ [demo_exit\<lparr>wait_status := 9\<rparr>]))
     demo_world) = Inl (Exit 0)"
proof -
  have "child_ended 9" by (simp add: child_ended_def wait_macros)
  then show ?thesis
    using exit_code [OF demo_ok(1-3), of "demo_exit\<lparr>wait_status := 9\<rparr>" "Killed 9 False" 7]
    by (simp add: status_word_def)
qed

end
