(* ===== verification/Messages.thy ===== *)
theory Messages
  imports Session
begin

text \<open>
  What the tracer itself says: the messages of a verbose run, and those of a command that
  cannot be executed. \<open>stderr\<close> is taken to be unbuffered, as the C standard has it.
\<close>

section \<open>Messages to an unbuffered stream\<close>

definition unbuffered :: "'a io_scheme \<Rightarrow> bool" where
  "unbuffered s \<longleftrightarrow> (\<forall>b. length b \<le> drain s Stderr b)"

lemma quiet_message: "unbuffered s \<Longrightarrow> quiet (fput Stderr d s)"
  by (auto simp: unbuffered_def quiet_def io_defs min_absorb2)

lemma quiet_said: "quiet s \<Longrightarrow> unbuffered s \<Longrightarrow> quiet (fput st d s)"
  using quiet_message [of s d] by (cases "st = Stderr") (simp_all add: quiet_def pending_fput_other)

lemma message_frame [frame_simps]:
  "cmd (fput st d s) = cmd s" "settings (fput st d s) = settings s" "open_fd (fput st d s) = open_fd s"
  by (simp_all add: settings_def open_fd_def frame_simps)

lemma plain_message: "plain s \<Longrightarrow> unbuffered s \<Longrightarrow> plain (fput st d s)"
  by (simp add: plain_def quiet_said frame_simps)

lemma begin_run_said [frame_simps]:
  "unbuffered (begin_run pid s) = unbuffered s" "drain (begin_run pid s) = drain s" "errprint_fh (begin_run pid s) = errprint_fh s"
  "settings (begin_run pid s) = settings s"
  by (simp_all add: begin_run_def unbuffered_def settings_def frame_simps)

lemma close_step_said [frame_simps]:
  "errprint_fh (close_step s) = errprint_fh s" "clib (close_step s) = clib s"
  by (simp_all add: close_step_def mark_close_marks frame_simps)

text \<open>Output to the end of the process leaves the rest of the state alone.\<close>

lemma output_kept:
  "io.more (fold (fput st) ds s) = io.more s" "opened (fold (fput st) ds s) = opened s"
  "drain (fold (fput st) ds s) = drain s"
  "io.more (flush_all s) = io.more s" "opened (flush_all s) = opened s"
  "drain (flush_all s) = drain s"
proof -
  show "io.more (fold (fput st) ds s) = io.more s" "opened (fold (fput st) ds s) = opened s"
    "drain (fold (fput st) ds s) = drain s"
    by (induction ds arbitrary: s) (simp_all add: frame_simps)
  have "io.more (fold fflush fs s) = io.more s \<and> opened (fold fflush fs s) = opened s \<and>
      drain (fold fflush fs s) = drain s" for fs
    by (induction fs arbitrary: s) (simp_all add: frame_simps)
  then show "io.more (flush_all s) = io.more s" "opened (flush_all s) = opened s"
    "drain (flush_all s) = drain s"
    by (simp_all add: flush_all_def)
qed

lemma requests_output [simp]:
  "requests (fold (fput st) ds s) = requests s" "requests (flush_all s) = requests s"
  by (rule more_eqD; simp add: output_kept)+

section \<open>A verbose run\<close>

lemma verbose_loop:
  assumes "plain s" "unbuffered s" "list_all proper as" "child_ended (wait_status e)"
    and "cverbose (cmd s)" "errprint_fh s = Some est"
  shows "\<exists>l s1. ptrace_loop (concat (map rounds as) @ [e]) init_locals s =
      (Inr (Some l), fput est (''status=0x'' @ fmt_02x (wait_status e) @ nl) (close_step s1)) \<and>
    exit_status l = wait_status e \<and>
    produced (concat (map writes_of as)) (concat (map requests_of as)) s s1"
proof -
  from loop_activities [OF assms(1,3), of init_locals "[e]"] obtain l s1 where
    loop: "ptrace_loop (concat (map rounds as) @ [e]) init_locals s = ptrace_loop [e] l s1" and
    p: "produced (concat (map writes_of as)) (concat (map requests_of as)) s s1"
    by (auto simp: init_locals_def)
  then have "cverbose (cmd s1)" "errprint_fh s1 = Some est"
    using assms(5,6) by (simp_all add: produced_def settings_def)
  then have "ptrace_loop [e] l s1 = (Inr (Some (l\<lparr>exit_status := wait_status e\<rparr>)),
      fput est (''status=0x'' @ fmt_02x (wait_status e) @ nl) (close_step s1))"
    using assms(4)
    by (simp add: ptrace_iter_def eprintf_def Let_def bindp_run close_marks_step prog_simps frame_simps)
  with loop p show ?thesis by (intro exI [of _ "l\<lparr>exit_status := wait_status e\<rparr>"]) auto
qed

lemma run_parent_verbose:
  assumes "ptrace_loop es init_locals (fput est (''child pid='' @ fmt_d pid @ nl) (begin_run pid s)) =
      (Inr (Some l), u)"
    and "cverbose (cmd s)" "errprint_fh s = Some est" "cverbose (cmd u)" "exit_status l \<noteq> 0"
    and "0 \<le> sigrtmin (clib u)"
  shows "\<exists>t. errmark_run_program (In_parent pid es) s = (Inr (Some (exit_status l)), t) \<and>
    flow Stdout t = flow Stdout u @ concat (replicate 2 (own Stdout (end_text u) (open_fd u))) \<and>
    flow Stderr t = flow Stderr u @ own Stderr (end_text u) (open_fd u) @
      fmt_s (cmd_name (cmd u)) @ '' ...'' @ nl @
      describe (clib u) (exit_status l) (wait_class_of (exit_status l)) @
      own Stderr (end_text u) (open_fd u)"
proof -
  have "0 \<le> sigrtmin (clib (close_step u))" using assms(6) by (simp add: frame_simps)
  from fshow_wait_status_run [OF this, of Stderr "cmd_name (cmd u)" "exit_status l"] obtain v where
    v: "fshow_wait_status (Some Stderr) (cmd_name (cmd u)) (exit_status l) (close_step u) = (Inr (), v)"
      "flow Stderr v = flow Stderr (close_step u) @ fmt_s (cmd_name (cmd u)) @ '' ...'' @ nl @
        describe (clib u) (exit_status l) (wait_class_of (exit_status l))"
      "flow Stdout v = flow Stdout (close_step u)" and
    same: "io.more v = io.more (close_step u)" "opened v = opened (close_step u)"
      "drain v = drain (close_step u)"
    by (auto simp: frame_simps)
  note same = more_eqD [OF same]
  let ?v = "upd_cmd (\<lambda>c. c\<lparr>rc := exit_status l\<rparr>) v"
  have "end_mark v = end_mark u" "open_fd v = open_fd u"
    using settings_marks [OF same(5)] same(1,3)
    by (simp_all add: open_fd_def fun_eq_iff frame_simps) (simp add: close_step_def mark_close_marks frame_simps)
  moreover have "open_fd ?v = open_fd v"
    by (simp add: open_fd_def frame_simps)
  ultimately have E: "end_text ?v = end_text u" "open_fd ?v = open_fd u"
    by (simp_all add: fun_eq_iff frame_simps)
  have "ptrace_cmd es (fput est (''child pid='' @ fmt_d pid @ nl) (begin_run pid s)) =
      (Inr (Some (exit_status l)), v)"
    using assms(1,4,5) by (simp add: ptrace_cmd_def bindp_run close_marks_step prog_simps v(1) frame_simps)
  then have "errmark_run_program (In_parent pid es) s = (Inr (Some (exit_status l)), close_step ?v)"
    using assms(2,3)
    by (simp add: errmark_run_program_def run_parent_def begin_run_def [symmetric] eprintf_def)
      (simp add: bindp_run close_marks_step prog_simps frame_simps begin_run_def)
  then show ?thesis
    using v(2,3) E by (simp add: frame_simps numeral_2_eq_2)
qed

section \<open>Properties\<close>



text \<open>
  C32: a command that cannot be executed: the forked process asks to be traced, says on stderr
  why, and exits with 2. Nothing else is done in it.
\<close>

theorem exec_failure:
  assumes "plain s" "cmd_path (cmd s) = Some path" "exec path (cargv (cmd s)) = Some (-1, err)"
  shows "\<exists>s'. errmark_run_program (In_child 0 exec) s = (Inl (Exit 2), s') \<and>
    content Stderr s' = flow Stderr s @ ''execvp(): '' @ strerror (clib s) err @ nl \<and>
    content Stdout s' = flow Stdout s \<and> requests s' = requests s @ [PTRACE_TRACEME]"
proof -
  let ?s = "upd_cmd (\<lambda>c. c\<lparr>child := 0\<rparr>) (upd_cmd (\<lambda>c. c\<lparr>mark_state := 0, child_exited := False\<rparr>) s)"
  let ?t = "upd_cmd (\<lambda>c. c\<lparr>rc := -1\<rparr>) (asked PTRACE_TRACEME ?s)"
  let ?m = "''execvp(): '' @ strerror (clib s) err @ nl"
  have "plain ?s" using assms(1) by (simp add: plain_def frame_simps)
  then have "guard_ptrace PTRACE_TRACEME 0 ?s = (Inr 0, asked PTRACE_TRACEME ?s)"
    by (rule guard_ptrace_asked)
  moreover have "clib (asked PTRACE_TRACEME ?s) = clib s"
    "cmd_path (cmd (asked PTRACE_TRACEME ?s)) = Some path"
    "cargv (cmd (asked PTRACE_TRACEME ?s)) = cargv (cmd s)"
    by (simp_all add: asked_def assms(2) frame_simps)
  ultimately have "errmark_run_program (In_child 0 exec) s =
      (Inl (Exit 2), flush_all (fput Stderr ?m ?t))"
    using assms(3)
    by (simp add: errmark_run_program_def run_child_def execvp_def bindp_run prog_simps exitp_def
        frame_simps)
  then show ?thesis by (simp add: flush_all_complete flow_fput frame_simps)
qed

theorem exec_failure_witness:
  "\<exists>s'. errmark_run_program (In_child 0 (\<lambda>path args. if path = ''ls'' then None else Some (-1, 2)))
      (demo_world\<lparr>cmd := (cmd demo_world)\<lparr>cmd_path := Some ''sl''\<rparr>\<rparr>) = (Inl (Exit 2), s') \<and>
    content Stderr s' = ''execvp(): error'' @ nl"
proof -
  let ?s = "demo_world\<lparr>cmd := (cmd demo_world)\<lparr>cmd_path := Some ''sl''\<rparr>\<rparr>"
  have "plain ?s" using demo_ok(1) by (simp add: plain_def quiet_def)
  then show ?thesis
    using exec_failure [of ?s "''sl''" "\<lambda>path args. if path = ''ls'' then None else Some (-1, 2)" 2]
    by (auto simp: demo_world_def init_states flow_def content_def)
qed

end
