(* ===== verification/Requests.thy ===== *)
theory Requests
  imports Tracer
begin

text \<open>
  The requests that a round of the tracer's loop makes, whatever the kernel and the child
  answer: which programs make none, and what the others add, in order.
\<close>

section \<open>Programs that make no request\<close>

definition same_requests :: "'a world_scheme \<Rightarrow> 'a world_scheme \<Rightarrow> bool" where
  "same_requests s s' \<longleftrightarrow> requests s' = requests s"

interpretation same_requests: kept same_requests
  by unfold_locales (simp_all add: same_requests_def)

lemma same_requests_upd:
  "(\<And>s. requests (f s) = requests s) \<Longrightarrow> keeps same_requests (upd f)"
  by (simp add: keeps_upd same_requests_def)

lemma same_requests_marks [simp]:
  "requests (mark_open s) = requests s" "requests (mark_close s) = requests s"
  "requests (before_write fd a n s) = requests s" "requests (after_write fd a n s) = requests s"
  by (simp_all add: mark_open_def mark_close_marks after_write_def before_write_def Let_def
      switch_from_fd_marks switch_to_fd_marks frame_simps)

lemma requests_fwrite [simp]: "requests (fwrite st d s) = requests s"
  by (simp add: fwrite_def frame_simps)

interpretation fwr: word_transfer "fwrite Stdout" "flow Stdout" "\<lambda>n. same_requests s0"
    "fflush Stdout" "fwrite_head Stdout" "fwrite_words Stdout" "pmem_fwrite Stdout" for s0
  by unfold_locales
    (auto simp add: fwrite_laws fwrite_head_def pmem_fwrite_def fwrite_words.simps [symmetric]
      same_requests_def frame_simps)

lemma requests_pmem_fwrite [simp]:
  "requests (snd (pmem_fwrite Stdout mem a len s)) = requests s"
proof -
  obtain d ok where "fetch mem a (unat len) = (d, ok)" by fastforce
  from fwr.walk_fetch [OF this, where s = s and ?s0.0 = s] show ?thesis
    by (auto simp: same_requests_def)
qed

lemma same_requests_fputs [simp]: "keeps same_requests (fputs d f)"
  by (cases f) (simp_all add: fputs_def same_requests.keeps_die same_requests_upd frame_simps)

lemma same_requests_eprintf [simp]: "keeps same_requests (eprintf d)"
  by (simp add: eprintf_def keeps_withs)

lemma same_requests_output [simp]:
  "keeps same_requests (trace_print d)" "keeps same_requests (debug_print d)"
  "keeps same_requests close_marks" "keeps same_requests (fshow_errno f d err)"
  by (auto simp: trace_print_def debug_print_def close_marks_def fshow_errno_def Let_def
      same_requests.keeps_ret intro!: keeps_withs same_requests.keeps_whenp same_requests_upd
      split: option.split)

lemma same_requests_exitp [simp]: "keeps same_requests (exitp n)"
proof -
  have "requests (fold fflush fs s) = requests s" for fs and s :: "'a world_scheme"
    by (induction fs arbitrary: s) (simp_all add: frame_simps)
  then show ?thesis by (simp add: keeps_def exitp_def same_requests_def flush_all_def)
qed

lemma same_requests_transfer [simp]: "keeps same_requests (transfer e fd a n)"
proof -
  have "keeps same_requests (guard_malloc m err k :: ('a world_scheme, 'm) prog)" for m :: "'m option" and err k
    by (auto simp: guard_malloc_def eexplain_err_def fexplain_err_def Let_def
        intro!: same_requests.keeps_rules split: option.split)
  then show ?thesis
    by (auto simp: transfer_def copy_stderr_def Let_def intro!: same_requests.keeps_rules same_requests_upd
        split: option.split)
qed

section \<open>What is requested\<close>

text \<open>If \<open>m\<close> returns, it has added requests \<open>qs\<close> with \<open>Q qs\<close>.\<close>

definition makes :: "(request list \<Rightarrow> bool) \<Rightarrow> ('a world_scheme, 'b) prog \<Rightarrow> bool" where
  "makes Q m \<longleftrightarrow> (\<forall>s a s'. m s = (Inr a, s') \<longrightarrow> (\<exists>qs. Q qs \<and> requests s' = requests s @ qs))"

lemma makesD: "makes Q m \<Longrightarrow> m s = (Inr a, s') \<Longrightarrow> \<exists>qs. Q qs \<and> requests s' = requests s @ qs"
  by (simp add: makes_def)

lemma makes_none: "keeps same_requests m \<Longrightarrow> Q [] \<Longrightarrow> makes Q m"
  unfolding makes_def keeps_def same_requests_def by (metis append_Nil2 snd_conv)

lemma makes_ret: "Q [] \<Longrightarrow> makes Q (ret a)"
  by (simp add: makes_none same_requests.keeps_ret)

lemma makes_die: "makes Q (die h)"
  by (simp add: makes_def die_run)

lemma makes_withs: "(\<And>s. makes Q (f s)) \<Longrightarrow> makes Q (withs f)"
  by (auto simp: makes_def withs_run)

lemma makes_bindp:
  assumes "makes P m" "\<And>p a. P p \<Longrightarrow> makes (\<lambda>q. Q (p @ q)) (k a)"
  shows "makes Q (bindp m k)"
  unfolding makes_def
proof (intro allI impI)
  fix s b s'
  assume "bindp m k s = (Inr b, s')"
  then obtain a t where m: "m s = (Inr a, t)" "k a t = (Inr b, s')"
    by (auto simp: bindp_run split: prod.splits sum.splits)
  from makesD [OF assms(1) m(1)] obtain p where p: "P p" "requests t = requests s @ p" by blast
  from makesD [OF assms(2) [OF p(1)] m(2)] p(2)
  show "\<exists>qs. Q qs \<and> requests s' = requests s @ qs" by auto
qed

text \<open>After a part that makes no request.\<close>

lemma makes_after:
  assumes "keeps same_requests m" "\<And>a. makes Q (k a)"
  shows "makes Q (bindp m k)"
  by (rule makes_bindp [OF makes_none [OF assms(1), of "\<lambda>p. p = []"]]) (simp_all add: assms(2))

lemma makes_guard_ptrace: "makes (\<lambda>q. q = [r]) (guard_ptrace r err)"
proof -
  have log: "makes (\<lambda>q. q = [r]) (upd (log_request r))"
    by (auto simp: makes_def upd_run frame_simps)
  have rest: "keeps same_requests (seqp [trace_print d, whenp b (upd (upd_cmd f)),
      whenp b' (seqp [close_marks, fshow_errno st d' err, die Abort])])" for d b f b' st d'
    by (auto intro!: same_requests.keeps_rules same_requests_upd simp: frame_simps)
  have eq: "guard_ptrace r err = bindp (trace_print (''> ptrace('' @ dec (request_code r) @ '')'' @ nl)) (\<lambda>_.
      bindp (upd (log_request r)) (\<lambda>_.
      bindp (seqp [trace_print (''< ptrace'' @ nl),
        whenp (err \<noteq> ESRCH) (upd (upd_cmd (\<lambda>c. c\<lparr>child_exited := True\<rparr>))),
        whenp (err \<noteq> 0 \<and> err \<noteq> ESRCH)
          (seqp [close_marks, fshow_errno (Some Stderr) ''ptrace() failed - '' err, die Abort])]) (\<lambda>_.
      ret (if err \<noteq> 0 then -1 else 0))))"
    by (simp add: guard_ptrace_def bindp_assoc)
  have tail: "makes (\<lambda>q. [r] @ q = [r]) (bindp (seqp [trace_print d, whenp b (upd (upd_cmd f)),
      whenp b' (seqp [close_marks, fshow_errno st d' err, die Abort])]) (\<lambda>_. ret x))" for d b f b' st d' x
    by (rule makes_after [OF rest]) (simp add: makes_ret)
  show ?thesis
    unfolding eq
    by (rule makes_after [OF same_requests_output(1)], rule makes_bindp [OF log], hypsubst, rule tail)
qed

section \<open>The requests of one round\<close>

text \<open>Between the registers' being read and the child's being resumed: nothing, or one change.\<close>

definition at_most_setregs :: "request list \<Rightarrow> bool" where
  "at_most_setregs q \<longleftrightarrow> q = [] \<or> (\<exists>r. q = [PTRACE_SETREGS r])"

definition round_requests :: "request list \<Rightarrow> bool" where
  "round_requests q \<longleftrightarrow> (\<exists>m. q = PTRACE_GETREGS # m @ [PTRACE_SYSCALL 0] \<and> at_most_setregs m)"

lemma makes_setregs: "makes at_most_setregs (bindp (guard_ptrace (PTRACE_SETREGS r) err) (\<lambda>_. k))"
  if "keeps same_requests k"
  by (rule makes_bindp [OF makes_guard_ptrace])
    (simp add: makes_none that at_most_setregs_def)

lemma makes_handle_write: "makes at_most_setregs (handle_write e r l)"
proof -
  have entry: "makes at_most_setregs (write_entry e r l)" for l
    unfolding write_entry_def Let_def
    by (auto intro!: makes_after makes_ret makes_withs makes_setregs same_requests.keeps_rules
        same_requests_upd simp: at_most_setregs_def frame_simps)
  have exit: "makes at_most_setregs (write_exit e r l)" for l
    unfolding write_exit_def Let_def
    by (auto intro!: makes_after makes_withs makes_setregs same_requests.keeps_rules same_requests_upd)
  have "keeps same_requests (bindp (withs (\<lambda>s. whenp (cdebug (cmd s)) (seqp [
      fputs (''.'' @ nl) (Some Stderr),
      whenp (slow (cmd s)) (upd (\<lambda>s. s\<lparr>slept := Suc (slept s)\<rparr>))]))) (\<lambda>_. ret l))" for l :: locals
    by (auto intro!: same_requests.keeps_rules same_requests_upd)
  then have "makes at_most_setregs (bindp (if b then write_entry e r l else write_exit e r l) (\<lambda>l.
      bindp (withs (\<lambda>s. whenp (cdebug (cmd s)) (seqp [fputs (''.'' @ nl) (Some Stderr),
        whenp (slow (cmd s)) (upd (\<lambda>s. s\<lparr>slept := Suc (slept s)\<rparr>))]))) (\<lambda>_. ret l)))" for b
    by (intro makes_bindp [where P = at_most_setregs, OF _ makes_none]) (simp_all add: entry exit del: seqp.simps)
  then show ?thesis
    unfolding handle_write_def by (rule makes_after [OF same_requests_output(2)])
qed

lemma makes_iter:
  assumes "ptrace_iter e l s = (Inr (Next l'), s')"
  shows "\<exists>q. round_requests q \<and> requests s' = requests s @ q"
proof -
  let ?l = "case getregs e of Inl err \<Rightarrow> l | Inr r \<Rightarrow> l\<lparr>regs_var := Some r\<rparr>"
  let ?err = "case getregs e of Inl err \<Rightarrow> err | Inr r \<Rightarrow> 0"
  have nd: "\<not> child_ended (wait_status e)" using iter_nextD [OF assms] by simp
  obtain x t where x: "guard_ptrace PTRACE_GETREGS ?err s = (x, t)" by fastforce
  with assms nd obtain rc where got: "guard_ptrace PTRACE_GETREGS ?err s = (Inr rc, t)"
    by (cases x) (simp_all add: ptrace_iter_def Let_def bindp_run [of "guard_ptrace PTRACE_GETREGS _"])
  with assms nd obtain r where
    rest: "bindp (if orig_rax r = SYS_write then handle_write e r ?l else ret ?l) (\<lambda>l.
        bindp (guard_ptrace (PTRACE_SYSCALL 0) (syscall_err e)) (\<lambda>_. ret (Next l))) t = (Inr (Next l'), s')"
    by (simp add: ptrace_iter_def Let_def bindp_run [of "guard_ptrace PTRACE_GETREGS _"] withs_run)
      (auto simp: ret_run die_run split: if_splits option.splits)
  have "makes at_most_setregs (if orig_rax r = SYS_write then handle_write e r ?l else ret ?l)"
    using makes_handle_write by (auto intro: makes_ret simp: at_most_setregs_def)
  then have "makes (\<lambda>q. \<exists>m. q = m @ [PTRACE_SYSCALL 0] \<and> at_most_setregs m)
      (bindp (if orig_rax r = SYS_write then handle_write e r ?l else ret ?l) (\<lambda>l.
        bindp (guard_ptrace (PTRACE_SYSCALL 0) (syscall_err e)) (\<lambda>_. ret (Next l))))"
    by (rule makes_bindp) (auto intro!: makes_bindp [OF makes_guard_ptrace] makes_ret)
  from makesD [OF this rest] makesD [OF makes_guard_ptrace got] show ?thesis
    by (auto simp: round_requests_def)
qed

lemma runs_to_requests:
  "runs_to es c c' \<Longrightarrow>
   \<exists>qss. requests (snd c') = requests (snd c) @ concat qss \<and> length qss = length es \<and>
     list_all round_requests qss"
proof (induction rule: runs_to.induct)
  case (idle c)
  show ?case by (intro exI [of _ "[]"]) simp
next
  case (round e l s l' s' es c)
  from makes_iter [OF round.hyps(1)] obtain q where "round_requests q" "requests s' = requests s @ q"
    by blast
  moreover from round.IH obtain qss where "requests (snd c) = requests s' @ concat qss"
    "length qss = length es" "list_all round_requests qss" by auto
  ultimately show ?case by (intro exI [of _ "q # qss"]) simp
qed

section \<open>Properties\<close>

text \<open>
  C11: the child is never left stopped. As long as the loop goes on, whatever the kernel and the
  child answer, each of its rounds has read the registers, changed them at most once, and then,
  as its last request, resumed the child. It is resumed with no signal, so that a signal by
  which it was stopped, such as \<open>SIGCHLD\<close>, never reaches it.
\<close>

theorem child_resumed:
  assumes "ptrace_loop es init_locals s = (Inr None, s')"
  shows "\<exists>qss. requests s' = requests s @ concat qss \<and> length qss = length es \<and>
    list_all (\<lambda>q. hd q = PTRACE_GETREGS \<and> last q = PTRACE_SYSCALL 0 \<and>
      (length q = 2 \<or> (\<exists>r. q = [PTRACE_GETREGS, PTRACE_SETREGS r, PTRACE_SYSCALL 0]))) qss"
proof -
  from assms obtain l' where "runs_to es (init_locals, s) (l', s')"
    by (auto simp: loop_runs_to)
  from runs_to_requests [OF this] obtain qss where
    "requests s' = requests s @ concat qss" "length qss = length es" "list_all round_requests qss"
    by auto
  then show ?thesis
    by (intro exI [of _ qss] conjI) (auto elim!: list.pred_mono_strong simp: round_requests_def at_most_setregs_def)
qed

theorem child_resumed_witness:
  "\<exists>s' qss. ptrace_loop [round 0x57f (demo_regs 59) low_page (\<lambda>_. None)] init_locals demo_world =
      (Inr None, s') \<and>
    requests s' = requests demo_world @ concat qss \<and> length qss = 1 \<and>
    last (concat qss) = PTRACE_SYSCALL 0"
proof -
  have "proper (Other 0x57f (demo_regs 59) low_page)"
    by (simp add: demo_regs_def SYS_write_def)
  from loop_activity [OF demo_ok(1) this, of init_locals "[]"] obtain s' where
    loop: "ptrace_loop [round 0x57f (demo_regs 59) low_page (\<lambda>_. None)] init_locals demo_world =
      (Inr None, s')"
    by (auto simp: init_locals_def ret_run simp del: ptrace_loop.simps(2))
  from child_resumed [OF this] obtain qss where
    "requests s' = requests demo_world @ concat qss" "length qss = 1"
    "list_all (\<lambda>q. last q = PTRACE_SYSCALL 0) qss"
    by (auto simp: list_all_iff)
  with loop show ?thesis
    by (intro exI [of _ s'] exI [of _ qss]) (auto simp: length_Suc_conv)
qed

end
