(* ===== verification/Bad_Usage.thy ===== *)
theory Bad_Usage
  imports Whole_Program Messages Requests
begin

text \<open>
  Command lines that do not run a command, or not the one meant: bad values of options, options
  without their value, unknown options, requests for help, debugging, and no command at all.
  Each is followed through \<open>main\<close> to the exit code and the messages.
\<close>

section \<open>Reaching the option after some well-formed ones\<close>

declare option_loop.simps [simp del]

text \<open>The stream of the error messages.\<close>

definition error_stream :: "env \<Rightarrow> stream" where
  "error_stream e = (if stat1 e \<noteq> None \<and> stat1 e = stat2 e then Stdout else Stderr)"

lemma main_prefix:
  assumes "list_all (item_ok ok) its" "argv = p # concat (map render its) @ rest"
  shows "\<exists>s n. main_prog e argv (init_errmark dr) =
      bindp (option_loop (Suc n) argv 0)
        (\<lambda>r. case r of None \<Rightarrow> ret () | Some k \<Rightarrow> finish_main e argv k) s \<and>
    nextchar (gopt s) = [] \<and> optind (gopt s) = length (p # concat (map render its)) \<and>
    (\<forall>st. flow st s = []) \<and> opened s = [] \<and> \<not> debug s \<and> \<not> verbose s \<and> requests s = [] \<and>
    errprint_fh s = Some (error_stream e) \<and> program_name s = sname (Some p) \<and>
    length rest \<le> n \<and>
    s = (fold apply_item its (start_main e [p] (init_errmark dr)))\<lparr>gopt := gopt s\<rparr>"
proof -
  define s0 where "s0 = start_main e argv (init_errmark dr)"
  have s0: "\<not> debug s0" "\<not> verbose s0" "nextchar (gopt s0) = []" "optind (gopt s0) = length [p]"
    "errprint_fh s0 = Some (error_stream e)" "program_name s0 = sname (Some p)" "requests s0 = []"
    "untouched s0 = (init_io\<lparr>drain := dr\<rparr>, False, False, None)"
    using assms(2)
    by (auto simp: s0_def start_main_def set_eprint_fh_def stderr_redirected_def error_stream_def
        Let_def init_states init_getopt_def untouched_def arg_at_def split: option.split)
  have "length its + length rest < enough_fuel argv"
  proof -
    have "length xs \<le> (\<Sum>a \<leftarrow> xs. Suc (length a))" for xs :: "string list"
      by (induction xs) auto
    from this [of rest] show ?thesis
      using fuel_items [of its p "[]"] by (simp add: assms(2) enough_fuel_def)
  qed
  then obtain n where n: "enough_fuel argv = length its + Suc n" "length rest \<le> n"
    using less_imp_Suc_add [of "length its + length rest" "enough_fuel argv"] by auto
  from option_loop_prefix [OF assms(1) s0(1-4), of "Suc n" rest] obtain g where
    loop: "option_loop (enough_fuel argv) argv 0 s0 =
      option_loop (Suc n) argv 0 ((fold apply_item its s0)\<lparr>gopt := g\<rparr>)" and
    g: "nextchar g = []" "optind g = length (p # concat (map render its))"
    using n(1) by (auto simp: assms(2))
  let ?s = "(fold apply_item its s0)\<lparr>gopt := g\<rparr>"
  have "main_prog e argv (init_errmark dr) = bindp (option_loop (Suc n) argv 0)
      (\<lambda>r. case r of None \<Rightarrow> ret () | Some k \<Rightarrow> finish_main e argv k) ?s"
    unfolding main_prog_def bindp_upd s0_def [symmetric] by (simp only: bindp_def loop)
  moreover have "untouched ?s = (init_io\<lparr>drain := dr\<rparr>, False, False, None)"
    using untouched_items [of its s0] s0(8) by (simp add: untouched_def io.defs)
  then have "\<not> debug ?s" "\<not> verbose ?s" "opened ?s = []" "\<forall>st. flow st ?s = []"
    by (simp_all add: untouched_def io.defs init_io_def flow_def content_def)
  moreover have "s0 = start_main e [p] (init_errmark dr)"
    by (simp add: s0_def start_main_def arg_at_def assms(2))
  ultimately show ?thesis
    using g s0(1-8) n(2) by (intro exI [of _ ?s] exI [of _ n]) (simp add: apply_items_kept)
qed

section \<open>Properties\<close>

lemma flow_statics [simp]:
  "flow st (s\<lparr>gopt := g\<rparr>) = flow st s" "flow st (s\<lparr>cmd := c\<rparr>) = flow st s"
  by (simp_all add: flow_def content_def)

text \<open>The next option, with its value or without.\<close>

lemma getopt_value:
  assumes "nextchar g = []" "optind g = length pre"
  shows "\<exists>g'. getopt_long ''hVdv'' long_options (pre @ [''--mark='' @ m] @ rest) g = (OPT_MARK, g') \<and>
      optarg g' = Some m"
    "\<exists>g'. getopt_long ''hVdv'' long_options (pre @ [''--color'', m] @ rest) g = (OPT_COLOR, g') \<and>
      optarg g' = Some m"
  using assms
  by (simp_all add: getopt_long_def long_opt_def nth_append find_long_names long_options_nth Let_def)

lemma getopt_no_value:
  assumes "nextchar g = []" "optind g = length pre" "opt \<in> {''--mark'', ''--color'', ''--copy''}"
  shows "\<exists>g'. getopt_long ''hVdv'' long_options (pre @ [opt]) g = (63, g') \<and> optopt g' \<noteq> 63 \<and>
    nextchar g' = [] \<and> optind g' = length (pre @ [opt])"
  using assms
  by (auto simp: getopt_long_def long_opt_def nth_append find_long_names long_options_nth Let_def
      OPT_MARK_def OPT_COLOR_def OPT_COPY_def OPT_BASE_def)

text \<open>The messages for a bad value.\<close>

definition mark_message :: "string \<Rightarrow> string" where
  "mark_message m = ''--mark='' @ [CHR 0x27] @ vis_str m @ CHR 0x27 # nl"

definition color_message :: "string \<Rightarrow> string" where
  "color_message nm =
     (let names = ''    black red green yellow blue magenta cyan white'' @ nl in
      ''Unknown color, '' @ [CHR 0x27] @ nm @ [CHR 0x27] @ ''.'' @ nl @
      ''Known color names are:'' @ nl @ names @ names)"

lemma same_requests_fshow_str: "keeps (same_requests :: 'a world_scheme \<Rightarrow> _) (fshow_str f d)"
proof (induction d)
  case (Cons c d)
  have "keeps (same_requests :: 'a world_scheme \<Rightarrow> _) (show_char_r n i)" for n i
    by (auto simp: show_char_r_def intro!: same_requests.keeps_rules same_requests_eprintf)
  with Cons show ?case by (auto intro!: same_requests.keeps_rules same_requests_fputs)
qed (simp add: same_requests.keeps_ret)

lemma bad_mark:
  assumes "\<not> debug s" "optarg (gopt s) = Some m" "take 1 m \<noteq> ''1''" "take 1 m \<noteq> ''2''"
  shows "if ascii m then
      \<exists>t. after_getopt arg OPT_MARK k s = (Inl (Exit 2), flush_all t) \<and>
        flow Stderr t = flow Stderr s @ mark_message m \<and> requests t = requests s
    else \<exists>t. after_getopt arg OPT_MARK k s = (Inl (Fault Buffer_overflow), t) \<and> requests t = requests s"
proof -
  have bad: "parse_mark_specs m s = (Inr False, s)"
    using assms(3,4) by (cases m) (auto simp: parse_mark_specs_def prog_simps)
  show ?thesis
  proof (cases "ascii m")
    case True
    then show ?thesis
      using assms(1,2) bad
      by (simp add: after_getopt_def debug_optc_def handle_option_def opt_values with_optarg_def
          opt_mark_def fshow_str_ascii exitp_def prog_simps)
        (intro exI conjI, rule refl,
          simp_all add: mark_message_def flow_fput out.puts_sent frame_simps)
  next
    case False
    define u where "u = fput Stderr (''--mark='' @ [CHR 0x27]) s"
    obtain t where t: "fshow_str (Some Stderr) m u = (Inl (Fault Buffer_overflow), t)"
      using fshow_str_fault [OF False, of Stderr u] by (metis prod.collapse)
    have "same_requests u (snd (fshow_str (Some Stderr) m u))"
      using same_requests_fshow_str unfolding keeps_def by blast
    then have "requests t = requests s" by (simp add: t same_requests_def) (simp add: u_def frame_simps)
    moreover have "after_getopt arg OPT_MARK k s = (Inl (Fault Buffer_overflow), t)"
      using assms(1,2) bad t [unfolded u_def]
      by (simp add: after_getopt_def debug_optc_def handle_option_def opt_values with_optarg_def
          opt_mark_def prog_simps)
    ultimately show ?thesis using False by simp
  qed
qed

lemma bad_color:
  assumes "\<not> debug s" "optarg (gopt s) = Some nm" "lookup_color (Some nm) = None"
  shows "\<exists>t. after_getopt arg OPT_COLOR k s = (Inl (Exit 2), flush_all t) \<and>
    flow Stderr t = flow Stderr s @ color_message nm \<and> requests t = requests s"
  using assms
  by (simp add: after_getopt_def debug_optc_def handle_option_def opt_values with_optarg_def
      opt_color_def fshow_color_table_def normal_colors_def bright_colors_def exitp_def prog_simps)
    (intro exI conjI, rule refl, simp_all add: color_message_def flow_fput frame_simps Let_def)

text \<open>
  C29: a bad value of an option after any well-formed options: a mark specification that does
  not start with a descriptor, or an unknown colour. The process says so on stderr and exits
  with 2; no process is traced, whatever follows on the command line. The colours that the
  message names twice are the normal ones: it does not tell how a bright one is asked for. If
  the bad mark specification has a byte of 128 or more, showing it in the message overruns a
  buffer instead.
\<close>

theorem bad_option_value:
  assumes "list_all (item_ok (can_open e)) its"
    and "(\<exists>m. bad = [''--mark='' @ m] \<and> take 1 m \<noteq> ''1'' \<and> take 1 m \<noteq> ''2'' \<and>
        msg = mark_message m \<and> r = (if ascii m then Exit 2 else Fault Buffer_overflow)) \<or>
      (\<exists>nm. bad = [''--color'', nm] \<and> lookup_color (Some nm) = None \<and>
        msg = color_message nm \<and> r = Exit 2)"
  shows "\<exists>s'. main_prog e (p # concat (map render its) @ bad @ rest) (init_errmark dr) = (Inl r, s') \<and>
    (r = Exit 2 \<longrightarrow> content Stderr s' = msg) \<and> requests s' = []"
proof -
  let ?pre = "p # concat (map render its)"
  let ?argv = "p # concat (map render its) @ bad @ rest"
  obtain s n where
    run: "main_prog e ?argv (init_errmark dr) = bindp (option_loop (Suc n) ?argv 0)
        (\<lambda>r. case r of None \<Rightarrow> ret () | Some k \<Rightarrow> finish_main e ?argv k) s" and
    s: "nextchar (gopt s) = []" "optind (gopt s) = length ?pre" "flow Stderr s = []"
      "\<not> debug s" "requests s = []"
    using main_prefix [OF assms(1) refl, where e = e and p = p and rest = "bad @ rest" and dr = dr] by blast
  let ?arg = "arg_at ?argv (if optind (gopt s) \<noteq> 0 then optind (gopt s) else 1)"
  obtain optc g u where
    g: "getopt_long ''hVdv'' long_options ?argv (gopt s) = (optc, g)" "optc \<noteq> -1" and
    u: "after_getopt ?arg optc 0 (s\<lparr>gopt := g\<rparr>) = (Inl r, u)"
      "r = Exit 2 \<Longrightarrow> content Stderr u = msg" "requests u = []"
  proof -
    from assms(2) show thesis
    proof (elim disjE exE conjE)
      fix m assume m: "bad = [''--mark='' @ m]" "take 1 m \<noteq> ''1''" "take 1 m \<noteq> ''2''"
        "msg = mark_message m" "r = (if ascii m then Exit 2 else Fault Buffer_overflow)"
      from getopt_value(1) [OF s(1,2), of m rest] obtain g where
        g: "getopt_long ''hVdv'' long_options ?argv (gopt s) = (OPT_MARK, g)" "optarg g = Some m"
        by (auto simp: m(1))
      show thesis
        using bad_mark [of "s\<lparr>gopt := g\<rparr>" m ?arg 0] s g m that [OF g(1)]
        by (cases "ascii m") (auto simp: opt_values flush_all_complete)
    next
      fix nm assume m: "bad = [''--color'', nm]" "lookup_color (Some nm) = None"
        "msg = color_message nm" "r = Exit 2"
      from getopt_value(2) [OF s(1,2), of nm rest] obtain g where
        g: "getopt_long ''hVdv'' long_options ?argv (gopt s) = (OPT_COLOR, g)" "optarg g = Some nm"
        by (auto simp: m(1))
      show thesis
        using bad_color [of "s\<lparr>gopt := g\<rparr>" nm ?arg 0] s g m that [OF g(1)]
        by (auto simp: opt_values flush_all_complete)
    qed
  qed
  have "main_prog e ?argv (init_errmark dr) = (Inl r, u)"
    unfolding run using option_loop_Suc [OF _ g(1), of 0 n] g(2) u(1)
    by (simp add: bindp_run)
  then show ?thesis using u(2,3) by simp
qed

theorem bad_option_value_witness:
  "(\<exists>s'. main_prog \<lparr>stat1 = None, stat2 = None, can_open = (\<lambda>_. True), fork = In_child 0 (\<lambda>_ _. None)\<rparr>
     (''errmark'' # concat (map render [Copy_item ''errs'']) @ [''--color'', ''pink''] @ [''ls'']) (init_errmark usual_drain) =
      (Inl (Exit 2), s') \<and> (Exit 2 = Exit 2 \<longrightarrow> content Stderr s' = color_message ''pink'') \<and> requests s' = []) \<and>
   (\<exists>s'. main_prog \<lparr>stat1 = None, stat2 = None, can_open = (\<lambda>_. True), fork = In_child 0 (\<lambda>_ _. None)\<rparr>
     (''errmark'' # concat (map render []) @ [''--mark='' @ [CHR 0xE9]] @ [''ls'']) (init_errmark usual_drain) =
      (Inl (Fault Buffer_overflow), s') \<and>
      (Fault Buffer_overflow = Exit 2 \<longrightarrow> content Stderr s' = mark_message [CHR 0xE9]) \<and> requests s' = [])"
proof (rule conjI; rule bad_option_value)
  show "(\<exists>m. [''--mark='' @ [CHR 0xE9]] = [''--mark='' @ m] \<and> take 1 m \<noteq> ''1'' \<and> take 1 m \<noteq> ''2'' \<and>
      mark_message [CHR 0xE9] = mark_message m \<and>
      Fault Buffer_overflow = (if ascii m then Exit 2 else Fault Buffer_overflow)) \<or>
    (\<exists>nm. [''--mark='' @ [CHR 0xE9]] = [''--color'', nm] \<and> lookup_color (Some nm) = None \<and>
      mark_message [CHR 0xE9] = color_message nm \<and> Fault Buffer_overflow = Exit 2)"
    by (intro disjI1 exI [of _ "[CHR 0xE9]"]) simp
qed (simp_all add: lookup_color_def normal_colors_def)

text \<open>An unknown long option, as \<open>main\<close> sees it, and the end of \<open>main\<close> after errors.\<close>

lemma unknown_long:
  assumes "\<not> debug s" "optopt (gopt s) \<noteq> 63" "program_name s = Some nm" "errprint_fh s = Some st"
    and "is_long_option opt"
  shows "\<exists>t. after_getopt (Some opt) 63 k s = (Inr (Suc k), t) \<and> gopt t = gopt s \<and> requests t = requests s \<and>
    errprint_fh t = Some st \<and> program_name t = Some nm \<and> opened t = opened s \<and>
    flow st t = flow st s @ nm @ '': unknown long option, '' @ [CHR 0x27] @ opt @ CHR 0x27 # nl"
  using assms
  by (simp add: after_getopt_def debug_optc_def handle_option_def opt_values eprint_def eprintf_def
      prog_simps frame_simps flow_fput same_gopt_upd(1) [unfolded same_gopt_def])

lemma usage_exit:
  assumes "errprint_fh s = Some st" "program_name s = Some nm" "k \<noteq> 0"
  shows "\<exists>t. finish_main e argv k s = (Inl (Exit 1), flush_all t) \<and> requests t = requests s \<and>
    flow st t = flow st s @ ''usage: '' @ nm @ '' [ <options> ]'' @ nl @ usage_text"
  using assms
  by (simp add: finish_main_def usage_def eprint_def eprintf_def exitp_def prog_simps frame_simps
      fmt_s_def)
    (intro exI conjI, rule refl, simp_all add: flow_fput frame_simps)

text \<open>
  C30: an option that takes a value, written last and without one, after any well-formed
  options: the process calls it an unknown option, which it is not, shows the usage text and
  exits with 1; no process is traced.
\<close>

theorem missing_value:
  assumes "list_all (item_ok (can_open e)) its" "opt \<in> {''--mark'', ''--color'', ''--copy''}"
    and "sname (Some p) = Some nm"
  shows "\<exists>s'. main_prog e (p # concat (map render its) @ [opt]) (init_errmark dr) = (Inl (Exit 1), s') \<and>
    content (error_stream e) s' =
      nm @ '': unknown long option, '' @ [CHR 0x27] @ opt @ [CHR 0x27] @ nl @
      ''usage: '' @ nm @ '' [ <options> ]'' @ nl @ usage_text \<and>
    requests s' = []"
proof -
  let ?pre = "p # concat (map render its)"
  let ?argv = "p # concat (map render its) @ [opt]"
  let ?st = "error_stream e"
  obtain s n where
    run: "main_prog e ?argv (init_errmark dr) = bindp (option_loop (Suc n) ?argv 0)
        (\<lambda>r. case r of None \<Rightarrow> ret () | Some k \<Rightarrow> finish_main e ?argv k) s" and
    s: "nextchar (gopt s) = []" "optind (gopt s) = length ?pre" "flow ?st s = []"
      "\<not> debug s" "requests s = []" "errprint_fh s = Some ?st" "program_name s = Some nm"
      "opened s = []" "length [opt] \<le> n"
    using main_prefix [OF assms(1) refl, where e = e and p = p and rest = "[opt]" and dr = dr] assms(3) by auto
  from s(9) obtain m where n: "n = Suc m" by (cases n) auto
  from getopt_no_value [OF s(1,2) assms(2)] obtain g where
    g: "getopt_long ''hVdv'' long_options ?argv (gopt s) = (63, g)" "optopt g \<noteq> 63" "nextchar g = []"
      "optind g = length ?argv" by auto
  have arg: "arg_at ?argv (if optind (gopt s) \<noteq> 0 then optind (gopt s) else 1) = Some opt"
    by (simp add: s(2) arg_at_def nth_append)
  have "is_long_option opt" using assms(2) by (auto simp: is_long_option_def)
  with unknown_long [of "s\<lparr>gopt := g\<rparr>" nm ?st opt 0] s g(2) obtain t where
    t: "after_getopt (Some opt) 63 0 (s\<lparr>gopt := g\<rparr>) = (Inr 1, t)" "gopt t = g" "requests t = []"
      "errprint_fh t = Some ?st" "program_name t = Some nm" "opened t = []"
      "flow ?st t = nm @ '': unknown long option, '' @ [CHR 0x27] @ opt @ CHR 0x27 # nl" by auto
  have g2: "getopt_long ''hVdv'' long_options ?argv (gopt t) = (-1, g\<lparr>optarg := None\<rparr>)"
    using getopt_stop [of g ?argv "[]"] g(3,4) t(2) by (simp add: command_line_def)
  have "option_loop (Suc n) ?argv 0 s = (Inr (Some 1), t\<lparr>gopt := g\<lparr>optarg := None\<rparr>\<rparr>)"
    using option_loop_Suc [OF _ g(1), of 0 n] option_loop_Suc [OF _ g2, of 1 m] t(1)
    by (simp add: n arg [simplified] bindp_run)
  moreover from usage_exit [of "t\<lparr>gopt := g\<lparr>optarg := None\<rparr>\<rparr>" ?st nm 1 e ?argv] t(3-7) obtain u where
    "finish_main e ?argv 1 (t\<lparr>gopt := g\<lparr>optarg := None\<rparr>\<rparr>) = (Inl (Exit 1), flush_all u)"
    "requests u = []"
    "flow ?st u = nm @ '': unknown long option, '' @ [CHR 0x27] @ opt @ [CHR 0x27] @ nl @
      ''usage: '' @ nm @ '' [ <options> ]'' @ nl @ usage_text"
    by auto
  moreover have "content ?st (flush_all u) = flow ?st u"
    by (rule flush_all_complete) (simp add: error_stream_def)
  ultimately show ?thesis by (simp add: run bindp_run)
qed

theorem missing_value_witness:
  "\<exists>s'. main_prog \<lparr>stat1 = None, stat2 = None, can_open = (\<lambda>_. True), fork = In_child 0 (\<lambda>_ _. None)\<rparr>
     [''/bin/errmark'', ''--copy=errs'', ''--color''] (init_errmark usual_drain) = (Inl (Exit 1), s') \<and>
    content Stderr s' = ''errmark: unknown long option, '' @ [CHR 0x27] @ ''--color'' @ [CHR 0x27] @ nl @
      ''usage: errmark [ <options> ]'' @ nl @ usage_text"
  using missing_value [where its = "[Copy_item ''errs'']" and opt = "''--color''" and p = "''/bin/errmark''"
      and nm = "''errmark''" and e = "\<lparr>stat1 = None, stat2 = None, can_open = (\<lambda>_. True), fork = In_child 0 (\<lambda>_ _. None)\<rparr>"]
  by (simp add: sname_def error_stream_def) blast

text \<open>
  C31: a file to copy to that cannot be opened: the process says so and exits with 2; the
  command is not run. Of several \<open>--copy\<close> options only the last is tried.
\<close>

theorem copy_not_opened:
  assumes "list_all (item_ok (\<lambda>_. True)) its" "command_line cl"
    and "copy_of its = Some f" "\<not> can_open e f"
  shows "\<exists>s'. main_prog e (p # concat (map render its) @ cl) (init_errmark dr) = (Inl (Exit 2), s') \<and>
    content (error_stream e) s' =
      ''open('' @ [CHR 0x27] @ f @ [CHR 0x27] @ '', '' @ [CHR 0x22] @ ''w'' @ [CHR 0x22] @ '') failed.'' @ nl \<and>
    requests s' = []"
proof -
  let ?argv = "p # concat (map render its) @ cl"
  let ?st = "error_stream e"
  let ?msg = "''open('' @ [CHR 0x27] @ f @ [CHR 0x27] @ '', '' @ [CHR 0x22] @ ''w'' @ [CHR 0x22] @ '') failed.'' @ nl"
  from main_options [OF assms(1,2) refl, where p = p and e = e and dr = dr] obtain s where
    loop: "option_loop (enough_fuel ?argv) ?argv 0 (start_main e ?argv (init_errmark dr)) = (Inr (Some 0), s)" and
    s: "untouched s = untouched (start_main e ?argv (init_errmark dr))" "copy_fname (cmd s) = Some f"
      "errprint_fh s = errprint_fh (start_main e ?argv (init_errmark dr))" "requests s = []"
    using assms(3) by auto
  have "io.truncate s = init_io\<lparr>drain := dr\<rparr>"
    using s(1) by (auto simp: untouched_def start_main_def set_eprint_fh_def Let_def init_states)
  then have flow: "flow ?st s = []" by (simp add: io.defs init_io_def flow_def content_def)
  have err: "errprint_fh s = Some ?st" "\<not> debug s" "\<not> verbose s"
    using s(1,3) by (auto simp: untouched_def start_main_def set_eprint_fh_def stderr_redirected_def
        error_stream_def Let_def init_states split: option.split)
  then have v: "s\<lparr>verbose := False\<rparr> = s" by simp
  have "\<exists>t. finish_main e ?argv 0 s = (Inl (Exit 2), flush_all t) \<and> flow ?st t = ?msg \<and> requests t = []"
    using err s(2,4) flow assms(4)
    by (simp add: finish_main_def set_verbose_def set_command_def open_copy_def try_fopen_def
        eprintf_def exitp_def upd_cmd_def prog_simps v Let_def)
      (intro exI conjI, rule refl, simp_all add: flow_fput frame_simps)
  then obtain t where t: "finish_main e ?argv 0 s = (Inl (Exit 2), flush_all t)" "flow ?st t = ?msg"
    "requests t = []" by blast
  moreover have "content ?st (flush_all t) = flow ?st t"
    by (rule flush_all_complete) (simp add: error_stream_def)
  ultimately show ?thesis
    by (simp add: main_prog_def loop bindp_run upd_run)
qed

theorem copy_not_opened_witness:
  "\<exists>s'. main_prog \<lparr>stat1 = None, stat2 = None, can_open = (\<lambda>f. f \<noteq> ''no/file''), fork = In_child 0 (\<lambda>_ _. None)\<rparr>
     [''errmark'', ''--copy=no/file'', ''ls''] (init_errmark usual_drain) = (Inl (Exit 2), s') \<and> requests s' = []"
  using copy_not_opened [where its = "[Copy_item ''no/file'']" and cl = "[''ls'']" and p = "''errmark''"
      and f = "''no/file''" and e = "\<lparr>stat1 = None, stat2 = None,
        can_open = (\<lambda>f. f \<noteq> ''no/file''), fork = In_child 0 (\<lambda>_ _. None)\<rparr>"]
  by (simp add: copy_of_def command_line_def) blast

text \<open>The flags for verbose and debug, and any further option after one of them.\<close>

lemma getopt_flag:
  assumes "nextchar g = []" "optind g = length pre" "flag \<in> {''-v'', ''--verbose'', ''-d'', ''--debug''}"
  shows "\<exists>optc g'. getopt_long ''hVdv'' long_options (pre @ flag # rest) g = (optc, g') \<and>
    optc = (if flag \<in> {''-v'', ''--verbose''} then 118 else 100) \<and> nextchar g' = [] \<and> optind g' = Suc (length pre)"
proof -
  have names: "find_long long_options ''verbose'' = Found 2" "find_long long_options ''debug'' = Found 3"
    "long_options ! 2 = \<lparr>lname = ''verbose'', larg = No_argument, lval = 118\<rparr>"
    "long_options ! 3 = \<lparr>lname = ''debug'', larg = No_argument, lval = 100\<rparr>"
    by (simp_all add: find_long_def long_options_def schar_letters)
  show ?thesis
    using assms
    by (auto simp: getopt_long_def long_opt_def short_opt_def names nth_append Let_def schar_letters)
qed

lemma after_flag:
  assumes "\<not> debug s" "optc = 118 \<or> optc = 100"
  shows "\<exists>v d. after_getopt arg optc k s = (Inr k, s\<lparr>verbose := v, debug := d\<rparr>) \<and> (v \<or> d)"
proof -
  have run: "after_getopt arg 118 k s = (Inr k, s\<lparr>verbose := True\<rparr>)"
    "after_getopt arg 100 k s = (Inr k, s\<lparr>debug := True\<rparr>)"
    using assms(1)
    by (simp_all add: after_getopt_def debug_optc_def handle_option_def opt_values prog_simps)
  have same: "s\<lparr>verbose := True, debug := debug s\<rparr> = s\<lparr>verbose := True\<rparr>"
    "s\<lparr>verbose := verbose s, debug := True\<rparr> = s\<lparr>debug := True\<rparr>" by simp_all
  from assms(2) show ?thesis
  proof
    assume "optc = 118"
    with run(1) same(1) show ?thesis by (intro exI [of _ True] exI [of _ "debug s"]) simp
  next
    assume "optc = 100"
    with run(2) same(2) show ?thesis by (intro exI [of _ "verbose s"] exI [of _ True]) simp
  qed
qed

lemma getopt_more:
  assumes "nextchar g = []" "optind g = length pre" "take 1 a = ''-''" "a \<noteq> ''-''" "a \<noteq> ''--''"
  shows "fst (getopt_long ''hVdv'' long_options (pre @ a # rest) g) \<noteq> -1"
proof -
  from assms(3,4) obtain c x where a: "a = CHR ''-'' # c # x"
    by (cases a; cases "tl a") auto
  have "lval (long_options ! i) \<noteq> -1" if "i < length long_options" for i
    using that by (auto simp: long_options_def opt_values nth_Cons less_Suc_eq)
  then have "fst (long_opt long_options argv str h) \<noteq> -1" for argv str h
    by (auto simp: long_opt_def Let_def split: found.split dest: find_long_found)
  moreover have "fst (short_opt ''hVdv'' (h\<lparr>nextchar := c # x\<rparr>)) \<noteq> -1" for h
    by (auto simp: short_opt_def Let_def schar_letters)
  ultimately show ?thesis
    using assms(1,2,5) by (auto simp: getopt_long_def a nth_append Let_def)
qed

text \<open>While \<open>debug\<close> is on and no stream is open for it, any option that is read is a fault.\<close>

lemma debug_faults:
  assumes "debug s" "dbgprint_fh s = None" "k \<le> 10"
    and "fst (getopt_long ''hVdv'' long_options argv (gopt s)) \<noteq> -1"
  shows "\<exists>g. option_loop (Suc n) argv k s = (Inl (Fault Null_stream), s\<lparr>gopt := g\<rparr>)"
proof -
  obtain optc g where g: "getopt_long ''hVdv'' long_options argv (gopt s) = (optc, g)" by fastforce
  have "after_getopt arg optc k (s\<lparr>gopt := g\<rparr>) = (Inl (Fault Null_stream), s\<lparr>gopt := g\<rparr>)" for arg
    using assms(1,2)
    by (simp add: after_getopt_def debug_optc_def bindp_run withs_run whenp_run dbg_printf_null)
  then show ?thesis
    using assms(4) option_loop_Suc [OF assms(3) g, of n]
    by (auto simp: g bindp_run)
qed

text \<open>
  C35: no debugging stream is ever opened. After any well-formed options and \<open>-d\<close> or
  \<open>--debug\<close>, one more argument that is an option, whatever it is, makes the program print to a
  null stream; no process is traced.
\<close>

theorem option_after_debug:
  assumes "list_all (item_ok (can_open e)) its" "d \<in> {''-d'', ''--debug''}"
    and "take 1 a = ''-''" "a \<noteq> ''-''" "a \<noteq> ''--''"
  shows "\<exists>s'. main_prog e (p # concat (map render its) @ d # a # as) (init_errmark dr) =
      (Inl (Fault Null_stream), s') \<and> requests s' = []"
proof -
  let ?pre = "p # concat (map render its)"
  let ?argv = "p # concat (map render its) @ d # a # as"
  let ?R = "fold apply_item its (start_main e [p] (init_errmark dr))"
  obtain s n where
    run: "main_prog e ?argv (init_errmark dr) = bindp (option_loop (Suc n) ?argv 0)
        (\<lambda>r. case r of None \<Rightarrow> ret () | Some k \<Rightarrow> finish_main e ?argv k) s" and
    s: "nextchar (gopt s) = []" "optind (gopt s) = length ?pre" "\<not> debug s" "requests s = []"
      "length (d # a # as) \<le> n" "s = ?R\<lparr>gopt := gopt s\<rparr>"
    using main_prefix [OF assms(1) refl, where e = e and p = p and rest = "d # a # as" and dr = dr] by blast
  from s(5) obtain m where n: "n = Suc m" by (cases n) auto
  have "dbgprint_fh s = None"
    by (subst s(6)) (simp add: apply_items_kept start_main_def set_eprint_fh_def Let_def init_states)
  from getopt_flag [OF s(1,2), of d "a # as"] assms(2) obtain g where
    g: "getopt_long ''hVdv'' long_options ?argv (gopt s) = (100, g)"
      "nextchar g = []" "optind g = length (?pre @ [d])"
    by auto
  define t where "t = s\<lparr>gopt := g, debug := True\<rparr>"
  have "after_getopt arg 100 0 (s\<lparr>gopt := g\<rparr>) = (Inr 0, t)" for arg
    using s(3) by (simp add: t_def after_getopt_def debug_optc_def handle_option_def opt_values prog_simps)
  then have "option_loop (Suc n) ?argv 0 s = option_loop n ?argv 0 t"
    using option_loop_Suc [OF _ g(1), of 0 n] by (simp add: bindp_run)
  moreover have "fst (getopt_long ''hVdv'' long_options ?argv (gopt t)) \<noteq> -1"
    using getopt_more [OF g(2,3) assms(3-5), of as] by (simp add: t_def)
  then obtain g' where "option_loop n ?argv 0 t = (Inl (Fault Null_stream), t\<lparr>gopt := g'\<rparr>)"
    using debug_faults [of t 0 ?argv m] \<open>dbgprint_fh s = None\<close> by (auto simp: n t_def)
  ultimately show ?thesis
    using s(4) by (simp add: run bindp_run t_def)
qed

theorem option_after_debug_witness:
  "\<exists>s'. main_prog \<lparr>stat1 = None, stat2 = None, can_open = (\<lambda>_. True), fork = In_child 0 (\<lambda>_ _. None)\<rparr>
     (''errmark'' # concat (map render [Copy_item ''errs'']) @ ''-d'' # ''-v'' # [''ls'']) (init_errmark usual_drain) =
      (Inl (Fault Null_stream), s') \<and> requests s' = []"
  by (rule option_after_debug) simp_all

text \<open>An unknown option is reported and counted.\<close>

lemma unknown_option:
  assumes "\<not> debug s" "optopt (gopt s) \<noteq> 63" "program_name s = Some nm" "errprint_fh s = Some st"
  shows "\<exists>s'. after_getopt (Some arg) 63 k s = (Inr (Suc k), s') \<and> errprint_fh s' \<noteq> None"
  using assms
  by (simp add: after_getopt_def debug_optc_def handle_option_def opt_values bindp_run withs_run
      whenp_run ret_run eprint_def eprintf_def prog_simps frame_simps)

lemma finish_main_errors:
  "errprint_fh s \<noteq> None \<Longrightarrow> k \<noteq> 0 \<Longrightarrow> fst (finish_main e argv k s) = Inl (Exit 1)"
  by (auto simp: finish_main_def usage_def eprint_def eprintf_def bindp_run withs_run whenp_run
      exitp_def prog_simps frame_simps)

text \<open>
  C33: an unknown short option is reported, and the process exits with 1 without running the
  command. The options \<open>-m\<close> and \<open>-c\<close>, which the usage text names, are unknown.
\<close>

theorem unknown_short_option:
  assumes "c \<notin> set ''hVdv?-''" "command_line cl"
  shows "fst (main_prog e (p # [CHR ''-'', c] # cl) (init_errmark dr)) = Inl (Exit 1)"
proof -
  let ?argv = "p # [CHR ''-'', c] # cl"
  define s0 where "s0 = start_main e ?argv (init_errmark dr)"
  have s0: "gopt s0 = init_getopt" "\<not> debug s0" "\<exists>nm. program_name s0 = Some nm" "\<exists>st. errprint_fh s0 = Some st"
    by (auto simp: s0_def start_main_def set_eprint_fh_def Let_def init_states arg_at_def sname_def)
  let ?g = "init_getopt\<lparr>optind := 2, optopt := schar c\<rparr>"
  have g1: "getopt_long ''hVdv'' long_options ?argv (gopt s0) = (63, ?g)"
    using assms(1) by (auto simp: s0(1) getopt_long_def short_opt_def init_getopt_def Let_def)
  have "schar c \<noteq> 63"
  proof
    assume "schar c = 63"
    then have "c = char_of (63 :: int)" using schar_print [of c] by (simp add: isprint_def)
    moreover have "char_of (63 :: int) = CHR ''?''" by code_simp
    ultimately show False using assms(1) by simp
  qed
  then obtain s1 where s1: "after_getopt (Some [CHR ''-'', c]) 63 0 (s0\<lparr>gopt := ?g\<rparr>) = (Inr 1, s1)"
      "errprint_fh s1 \<noteq> None"
    using s0 unknown_option [of "s0\<lparr>gopt := ?g\<rparr>" _ _ "[CHR ''-'', c]" 0] by fastforce
  have gs1: "gopt s1 = ?g" using keeps_goptD [OF same_gopt_after s1(1)] by simp
  then have g2: "getopt_long ''hVdv'' long_options ?argv (gopt s1) = (-1, ?g\<lparr>optarg := None\<rparr>)"
    using getopt_stop [of ?g "[p, [CHR ''-'', c]]" cl] assms(2) by (simp add: init_getopt_def)
  obtain n where n: "enough_fuel ?argv = Suc (Suc n)" by (auto simp: enough_fuel_def)
  have "option_loop (enough_fuel ?argv) ?argv 0 s0 = option_loop (Suc n) ?argv 1 s1"
    using option_loop_Suc [OF _ g1, of 0 "Suc n"] s1(1)
    by (simp add: n s0(1) init_getopt_def arg_at_def bindp_run)
  also have "\<dots> = (Inr (Some 1), s1\<lparr>gopt := ?g\<lparr>optarg := None\<rparr>\<rparr>)"
    using option_loop_Suc [OF _ g2, of 1 n] by simp
  finally show ?thesis
    using finish_main_errors [of "s1\<lparr>gopt := ?g\<lparr>optarg := None\<rparr>\<rparr>" 1 e ?argv] s1(2)
    by (simp add: main_prog_def bindp_run upd_run s0_def [symmetric])
qed

theorem unknown_short_option_witness:
  "fst (main_prog \<lparr>stat1 = None, stat2 = None, can_open = (\<lambda>_. True), fork = In_child 0 (\<lambda>_ _. None)\<rparr>
     [''errmark'', ''-m'', ''ls''] (init_errmark usual_drain)) = Inl (Exit 1) \<and>
   fst (main_prog \<lparr>stat1 = None, stat2 = None, can_open = (\<lambda>_. True), fork = In_child 0 (\<lambda>_ _. None)\<rparr>
     [''errmark'', ''-c'', ''ls''] (init_errmark usual_drain)) = Inl (Exit 1)"
  using unknown_short_option [where c = "CHR ''m''" and cl = "[''ls'']"]
    unknown_short_option [where c = "CHR ''c''" and cl = "[''ls'']"]
  by (simp add: command_line_def)

text \<open>Without even a name of the program, nothing is run.\<close>

lemma main_no_args: "fst (main_prog e [] (init_errmark dr)) = Inl (Exit 2)"
  by (simp add: main_prog_def finish_main_def option_loop_no_args bindp_run upd_run start_main_def
      set_eprint_fh_def arg_at_def Let_def init_states sname_def usage_def eprintf_def eprint_def
      exitp_def prog_simps frame_simps set_verbose_def)

text \<open>The forked process without a command.\<close>

lemma run_child_no_path:
  assumes "plain s" "cmd_path (cmd s) = None"
  shows "fst (run_command (In_child 0 exec) s) = Inl (Fault Null_deref)"
proof -
  let ?s = "upd_cmd (\<lambda>c. c\<lparr>child := 0\<rparr>) (upd_cmd (\<lambda>c. c\<lparr>mark_state := 0, child_exited := False\<rparr>) s)"
  have "plain ?s" using assms(1) by (simp add: plain_def frame_simps)
  then have "guard_ptrace PTRACE_TRACEME 0 ?s = (Inr 0, asked PTRACE_TRACEME ?s)"
    by (rule guard_ptrace_asked)
  moreover have "cmd_path (cmd (asked PTRACE_TRACEME ?s)) = None"
    by (simp add: asked_def assms(2) frame_simps)
  ultimately show ?thesis
    by (simp add: run_command_def errmark_run_program_def run_child_def execvp_def bindp_run
        prog_simps)
qed

text \<open>
  C38: without a command the program is not stopped: the check for it looks at \<open>argc\<close>, which
  counts the program's own name. The command is run with a null path and a null name, and the
  forked process hands the null path to \<open>execvp\<close>, which reads it. Only an empty \<open>argv\<close> is
  refused, with exit code 2.
\<close>

theorem no_command:
  "\<exists>s. main_prog e [p] (init_errmark dr) = run_command (fork e) s \<and>
     cmd_path (cmd s) = None \<and> cmd_name (cmd s) = None \<and> cargc (cmd s) = 0 \<and>
   fst (main_prog (e\<lparr>fork := In_child 0 exec\<rparr>) [p] (init_errmark dr)) = Inl (Fault Null_deref) \<and>
   fst (main_prog e [] (init_errmark dr)) = Inl (Exit 2)"
proof -
  have run: "\<exists>s. main_prog e [p] (init_errmark dr) = run_command (fork e) s \<and> plain s \<and>
     cmd_path (cmd s) = None \<and> cmd_name (cmd s) = None \<and> cargc (cmd s) = 0" for e
  proof -
    from main_launch [of e "[]" "[]" "[p]" p dr] obtain s where
      "main_prog e [p] (init_errmark dr) = run_command (fork e) (launch [p] s)" and
      s: "optind (gopt s) = 1" "untouched s = untouched (start_main e [p] (init_errmark dr))"
      by (auto simp: command_line_def)
    moreover have "cmd_path (cmd (launch [p] s)) = None" "cmd_name (cmd (launch [p] s)) = None"
      "cargc (cmd (launch [p] s)) = 0"
      using s(1) by (simp_all add: launch_def upd_cmd_def fopen_w_def arg_at_def sname_def Let_def
          split: option.split)
    moreover note launch_facts(3) [OF s(2)]
    ultimately show ?thesis by blast
  qed
  have "fst (main_prog (e\<lparr>fork := In_child 0 exec\<rparr>) [p] (init_errmark dr)) = Inl (Fault Null_deref)"
    using run [of "e\<lparr>fork := In_child 0 exec\<rparr>"] run_child_no_path by auto
  with run [of e] show ?thesis using main_no_args by blast
qed

text \<open>A first option that makes the process exit at once, after writing \<open>t\<close> to stdout.\<close>

lemma main_first_option:
  assumes g: "getopt_long ''hVdv'' long_options (p # a # as) init_getopt = (optc, g)" "optc \<noteq> -1"
    and h: "\<And>(s :: errmark) arg. \<not> debug s \<Longrightarrow> gopt s = g \<Longrightarrow>
      \<exists>s'. after_getopt arg optc 0 s = (Inl (Exit 0), flush_all s') \<and> flow Stdout s' = flow Stdout s @ t"
  shows "\<exists>s'. main_prog e (p # a # as) (init_errmark dr) = (Inl (Exit 0), s') \<and> content Stdout s' = t"
proof -
  define s0 where "s0 = start_main e (p # a # as) (init_errmark dr)"
  have s0: "gopt s0 = init_getopt" "\<not> debug s0" "flow Stdout s0 = []"
    by (auto simp: s0_def start_main_def set_eprint_fh_def Let_def init_states flow_def content_def)
  then obtain s' where
    a: "after_getopt (Some a) optc 0 (s0\<lparr>gopt := g\<rparr>) = (Inl (Exit 0), flush_all s')" "flow Stdout s' = t"
    using h [of "s0\<lparr>gopt := g\<rparr>" "Some a"] by (auto simp: flow_def content_def)
  obtain n where n: "enough_fuel (p # a # as) = Suc n" by (simp add: enough_fuel_def)
  have "option_loop (enough_fuel (p # a # as)) (p # a # as) 0 s0 = (Inl (Exit 0), flush_all s')"
    using option_loop_Suc [of 0 "p # a # as" s0 optc g n] g a(1)
    by (simp add: n s0(1) init_getopt_def arg_at_def bindp_run)
  then have "main_prog e (p # a # as) (init_errmark dr) = (Inl (Exit 0), flush_all s')"
    by (simp add: main_prog_def bindp_run upd_run s0_def [symmetric])
  then show ?thesis using a(2) by (simp add: flush_all_complete)
qed

text \<open>
  C34: asked for help, by \<open>-h\<close>, \<open>-?\<close> or \<open>--help\<close>, the program writes the usage text to
  stdout and exits with 0, whatever follows on the command line; asked for its version, by
  \<open>-V\<close> or \<open>--version\<close>, the version, copyright and license texts.
\<close>

theorem help_and_version:
  assumes "h \<in> {''-h'', ''-?'', ''--help''}" "v \<in> {''-V'', ''--version''}"
  shows "\<exists>s' s''. main_prog e (p # h # as) (init_errmark dr) = (Inl (Exit 0), s') \<and>
      content Stdout s' = usage_text \<and>
    main_prog e (p # v # as) (init_errmark dr) = (Inl (Exit 0), s'') \<and>
      content Stdout s'' = version_text @ nl @ copyright_text @ nl @ license_text @ nl"
proof -
  have shows_help: "\<exists>s'. after_getopt arg optc 0 s = (Inl (Exit 0), flush_all s') \<and>
      flow Stdout s' = flow Stdout s @ usage_text"
    if "\<not> debug s" "optc = 104 \<or> optc = 63 \<and> optopt (gopt s) = 63" for s :: errmark and arg optc
    using that by (auto simp: after_getopt_def debug_optc_def handle_option_def opt_values bindp_run
        withs_run whenp_run exitp_def prog_simps flow_fput)
  have shows_version: "\<exists>s'. after_getopt arg 86 0 s = (Inl (Exit 0), flush_all s') \<and>
      flow Stdout s' = flow Stdout s @ version_text @ nl @ copyright_text @ nl @ license_text @ nl"
    if "\<not> debug s" for s :: errmark and arg
    using that by (auto simp: after_getopt_def debug_optc_def handle_option_def opt_values bindp_run
        withs_run whenp_run exitp_def show_program_version_def fshow_program_version_def prog_simps
        flow_fput)
  have names: "find_long long_options ''help'' = Found 0" "find_long long_options ''version'' = Found 1"
    "long_options ! 0 = \<lparr>lname = ''help'', larg = No_argument, lval = 104\<rparr>"
    "long_options ! 1 = \<lparr>lname = ''version'', larg = No_argument, lval = 86\<rparr>"
    by (simp_all add: find_long_def long_options_def schar_letters)
  have getopt: "\<exists>optc g. getopt_long ''hVdv'' long_options (p # h # as) init_getopt = (optc, g) \<and>
      (optc = 104 \<or> optc = 63 \<and> optopt g = 63)"
    "\<exists>g. getopt_long ''hVdv'' long_options (p # v # as) init_getopt = (86, g)"
    using assms
    by (auto simp: getopt_long_def long_opt_def short_opt_def names init_getopt_def Let_def
        schar_letters names [simplified])
  from getopt(1) obtain optc g where
    "getopt_long ''hVdv'' long_options (p # h # as) init_getopt = (optc, g)"
    "optc = 104 \<or> optc = 63 \<and> optopt g = 63" by blast
  with main_first_option [OF this(1)] shows_help have
    "\<exists>s'. main_prog e (p # h # as) (init_errmark dr) = (Inl (Exit 0), s') \<and> content Stdout s' = usage_text"
    by auto
  moreover from getopt(2) main_first_option shows_version have
    "\<exists>s'. main_prog e (p # v # as) (init_errmark dr) = (Inl (Exit 0), s') \<and>
      content Stdout s' = version_text @ nl @ copyright_text @ nl @ license_text @ nl"
    by fastforce
  ultimately show ?thesis by blast
qed

theorem help_and_version_witness:
  "\<exists>s' s''. main_prog \<lparr>stat1 = None, stat2 = None, can_open = (\<lambda>_. True), fork = In_child 0 (\<lambda>_ _. None)\<rparr>
      [''errmark'', ''-?'', ''-m''] (init_errmark usual_drain) = (Inl (Exit 0), s') \<and> content Stdout s' = usage_text \<and>
    main_prog \<lparr>stat1 = None, stat2 = None, can_open = (\<lambda>_. True), fork = In_child 0 (\<lambda>_ _. None)\<rparr>
      [''errmark'', ''--version'', ''-m''] (init_errmark usual_drain) = (Inl (Exit 0), s'') \<and>
      content Stdout s'' = version_text @ nl @ copyright_text @ nl @ license_text @ nl"
  by (rule help_and_version) simp_all

end
