(* ===== verification/Talk.thy ===== *)
theory Talk
  imports Bad_Usage
begin

text \<open>
  The debugging and verbose options change nothing but what is said on stderr and on the
  stream for errors: two runs side by
  side, one with the flags and one without, related by \<open>alike\<close>.
\<close>

section \<open>States that differ only in what was said\<close>

definition quiet_cmd :: "cmd \<Rightarrow> cmd" where
  "quiet_cmd c = c\<lparr>cverbose := False, cdebug := False\<rparr>"

text \<open>
  The streams that are not compared are stderr and \<open>est\<close>, the stream for errors, on which the
  two sides may have said different things.
\<close>

definition said :: "stream \<Rightarrow> stream \<Rightarrow> bool" where
  "said est st \<longleftrightarrow> st = Stderr \<or> st = est"

definition alike :: "stream \<Rightarrow> 'a world_scheme \<Rightarrow> 'a world_scheme \<Rightarrow> bool" where
  "alike est s t \<longleftrightarrow>
     filter (\<lambda>w. \<not> said est (fst w)) (written s) = filter (\<lambda>w. \<not> said est (fst w)) (written t) \<and>
     (\<forall>st. \<not> said est st \<longrightarrow> pending s st = pending t st) \<and>
     opened s = opened t \<and> drain s = drain t \<and> clib s = clib t \<and>
     start1 s = start1 t \<and> end1 s = end1 t \<and> start2 s = start2 t \<and> end2 s = end2 t \<and>
     cur_fd s = cur_fd t \<and> requests s = requests t \<and> quiet_cmd (cmd s) = quiet_cmd (cmd t) \<and>
     errprint_fh s = Some est \<and> errprint_fh t = Some est \<and> 0 \<le> sigrtmin (clib t)"

lemma alike_sym: "alike est s t \<Longrightarrow> alike est t s"
  by (auto simp: alike_def)

lemma alike_cmd:
  assumes "alike est s t"
  shows "mark_state (cmd s) = mark_state (cmd t)" "trace_fbt (cmd s) = trace_fbt (cmd t)"
    "nullify (cmd s) = nullify (cmd t)" "copy_fh (cmd s) = copy_fh (cmd t)"
    "child_exited (cmd s) = child_exited (cmd t)" "rc (cmd s) = rc (cmd t)"
    "copy_fname (cmd s) = copy_fname (cmd t)"
    "cmd_path (cmd s) = cmd_path (cmd t)" "cargv (cmd s) = cargv (cmd t)"
    "errprint_fh s = Some est" "errprint_fh t = Some est" "clib s = clib t"
    "cur_fd s = cur_fd t" "opened s = opened t"
  using assms by (cases "cmd s"; cases "cmd t"; simp add: alike_def quiet_cmd_def)+

text \<open>Every output call, on both sides; and a message on one side alone.\<close>

lemma alike_said:
  assumes "said est st" "alike est s t"
  shows "alike est (fput st d s) t" "alike est (fflush st s) t" "alike est (sys_write st d s) t"
  using assms by (simp_all add: alike_def io_defs)

lemma alike_both_said:
  assumes "\<And>s t :: 'a world_scheme. alike est s t \<Longrightarrow> alike est (f s) t" "alike est s (t :: 'a world_scheme)"
  shows "alike est (f s) (f t)"
  by (intro assms(1) alike_sym [OF assms(1)] alike_sym [OF assms(2)])

lemma alike_fput: "alike est s t \<Longrightarrow> alike est (fput st d s) (fput st d t)"
proof (cases "said est st")
  case False
  assume "alike est s t"
  with False show ?thesis by (simp add: alike_def io_defs) (auto simp: min_def split: if_splits)
qed (simp add: alike_both_said alike_said)

lemma alike_fflush: "alike est s t \<Longrightarrow> alike est (fflush st s) (fflush st t)"
proof (cases "said est st")
  case False
  assume "alike est s t"
  with False show ?thesis by (simp add: alike_def io_defs)
qed (simp add: alike_both_said alike_said)

lemma alike_sys_write: "alike est s t \<Longrightarrow> alike est (sys_write st d s) (sys_write st d t)"
  by (simp add: alike_def io_defs)

lemma alike_fopen: "alike est s t \<Longrightarrow> alike est (fopen_w p s) (fopen_w p t)"
  by (simp add: alike_def fopen_w_def)

lemmas alike_io = alike_fput alike_fflush alike_sys_write alike_fopen

lemma alike_fwrite: "alike est s t \<Longrightarrow> alike est (fwrite st d s) (fwrite st d t)"
  by (simp add: fwrite_def alike_io)

lemma alike_flush_all:
  assumes "alike est s t"
  shows "alike est (flush_all s) (flush_all t)"
proof -
  have "alike est (fold fflush fs s) (fold fflush fs t)" for fs
    using assms by (induction fs arbitrary: s t) (simp_all add: alike_io)
  then show ?thesis using assms by (simp add: flush_all_def alike_cmd(14))
qed

lemma alike_write_marks: "alike est s t \<Longrightarrow> alike est (write_marks ms s) (write_marks ms t)"
  by (induction ms arbitrary: s t) (auto simp: write_marks_def sync_def alike_io)

lemma alike_marks:
  assumes "alike est s t"
  shows "alike est (mark_open s) (mark_open t)" "alike est (mark_close s) (mark_close t)"
    "alike est (before_write fd a n s) (before_write fd a n t)"
    "alike est (after_write fd a n s) (after_write fd a n t)"
proof -
  have m: "start_mark s = start_mark t" "end_mark s = end_mark t" "cur_fd s = cur_fd t"
    using assms by (auto simp: alike_def start_mark_def end_mark_def fun_eq_iff)
  have set_fd: "alike est (u\<lparr>cur_fd := i\<rparr>) (v\<lparr>cur_fd := i\<rparr>)" if "alike est u v" for u v :: "'a world_scheme" and i
    using that by (auto simp: alike_def)
  show "alike est (mark_open s) (mark_open t)" using assms by (simp add: mark_open_def set_fd)
  show "alike est (mark_close s) (mark_close t)"
    using assms m by (simp add: mark_close_marks alike_write_marks)
  show "alike est (before_write fd a n s) (before_write fd a n t)"
    using assms m by (auto simp: before_write_def Let_def switch_from_fd_marks switch_to_fd_marks
        marks_of_frame intro!: set_fd alike_write_marks)
  show "alike est (after_write fd a n s) (after_write fd a n t)"
    using assms by (simp add: after_write_def)
qed

lemma alike_upd_cmd:
  "alike est s t \<Longrightarrow> (\<And>c. quiet_cmd (f c) = f (quiet_cmd c)) \<Longrightarrow> alike est (upd_cmd f s) (upd_cmd f t)"
  by (simp add: alike_def upd_cmd_def)

text \<open>A transfer.\<close>

lemma alike_fwrite_words:
  "alike est s t \<Longrightarrow>
   fst (fwrite_words f mem a n k s) = fst (fwrite_words f mem a n k t) \<and>
   alike est (snd (fwrite_words f mem a n k s)) (snd (fwrite_words f mem a n k t))"
proof (induction f mem a n k s arbitrary: t rule: fwrite_words.induct)
  case (1 f mem a n k s)
  then show ?case
    by (auto simp: fwrite_words.simps [of f mem a n k] alike_fwrite split: sum.split)
qed

lemma alike_pmem_fwrite:
  assumes "alike est s t"
  shows "alike est (snd (pmem_fwrite f mem a n s)) (snd (pmem_fwrite f mem a n t))"
proof -
  have head: "fst (fwrite_head f mem a n s) = fst (fwrite_head f mem a n t)"
      "alike est (snd (fwrite_head f mem a n s)) (snd (fwrite_head f mem a n t))"
    using assms by (simp_all add: fwrite_head_def Let_def alike_fwrite split: sum.split)
  show ?thesis
  proof (cases "fst (fwrite_head f mem a n t)")
    case (Inl r)
    with head show ?thesis
      by (cases "fwrite_head f mem a n s"; cases "fwrite_head f mem a n t") (simp add: pmem_fwrite_def)
  next
    case (Inr p)
    obtain b m k where p: "p = (b, m, k)" by (cases p) auto
    with head Inr obtain s1 t1 where
      S: "fwrite_head f mem a n s = (Inr (b, m, k), s1)" "fwrite_head f mem a n t = (Inr (b, m, k), t1)"
      "alike est s1 t1"
      by (cases "fwrite_head f mem a n s"; cases "fwrite_head f mem a n t") auto
    show ?thesis
      using alike_fwrite_words [OF S(3), of f mem b m k]
      by (cases "fwrite_words f mem b m k s1"; cases "fwrite_words f mem b m k t1")
        (auto simp: pmem_fwrite_def S alike_io alike_fwrite split: sum.split)
  qed
qed

section \<open>Programs that only talk\<close>

definition chatter :: "stream \<Rightarrow> ('a world_scheme, unit) prog \<Rightarrow> bool" where
  "chatter est m \<longleftrightarrow> (\<forall>s t. alike est s t \<longrightarrow> (\<exists>s'. m s = (Inr (), s') \<and> alike est s' t))"

lemma chatterD: "chatter est m \<Longrightarrow> alike est s t \<Longrightarrow> \<exists>s'. m s = (Inr (), s') \<and> alike est s' t"
  by (simp add: chatter_def)

lemma chatter_ret: "chatter est (ret ())"
  by (simp add: chatter_def ret_run)

lemma chatter_bindp:
  assumes "chatter est m" "chatter est (k ())"
  shows "chatter est (bindp m k)"
  unfolding chatter_def
proof (intro allI impI)
  fix s t :: "'a world_scheme"
  assume "alike est s t"
  from chatterD [OF assms(1) this] obtain s1 where s1: "m s = (Inr (), s1)" "alike est s1 t" by blast
  from chatterD [OF assms(2) s1(2)] show "\<exists>s'. bindp m k s = (Inr (), s') \<and> alike est s' t"
    by (simp add: bindp_run s1(1))
qed

lemma chatter_seqp: "list_all (chatter est) ms \<Longrightarrow> chatter est (seqp ms)"
  by (induction ms) (auto simp: chatter_ret intro: chatter_bindp)

lemma chatter_whenp: "chatter est m \<Longrightarrow> chatter est (whenp b m)"
  by (simp add: whenp_def chatter_ret)

lemma chatter_withs: "(\<And>s. chatter est (f s)) \<Longrightarrow> chatter est (withs f)"
  by (simp add: chatter_def withs_run)

lemma said_streams [simp]: "said est Stderr" "said est est"
  by (simp_all add: said_def)

lemma chatter_say [simp]: "chatter est (fputs d (Some Stderr))" "chatter est (eprintf d)"
  by (auto simp: chatter_def eprintf_def prog_simps alike_cmd alike_said)

lemma chatter_sleep [simp]: "chatter est (upd (\<lambda>s. s\<lparr>slept := f s\<rparr>))"
  by (simp add: chatter_def upd_run alike_def)

lemma chatter_debug_print [simp]: "chatter est (debug_print d)"
  by (simp add: debug_print_def chatter_withs chatter_whenp)

lemma chatter_fshow_wait_status [simp]: "chatter est (fshow_wait_status (Some Stderr) nm status)"
  unfolding chatter_def
proof (intro allI impI)
  fix s t :: "'a world_scheme"
  assume st: "alike est s t"
  then have ok: "0 \<le> sigrtmin (clib s)" by (simp add: alike_def)
  have "decode_signal_r (clib s) 32 (status mod 128) = Inr (signal_text (clib s) (status mod 128))"
    using mod_range [of 128 status]
    by (intro decode_signal_r_ok [OF ok]) simp_all
  moreover have "decode_signal_r (clib s) 32 (status div 256 mod 256) =
      Inr (signal_text (clib s) (status div 256 mod 256))"
    using mod_range [of 256 "status div 256"]
    by (intro decode_signal_r_ok [OF ok]) simp_all
  ultimately show "\<exists>s'. fshow_wait_status (Some Stderr) nm status s = (Inr (), s') \<and> alike est s' t"
    using st by (simp add: fshow_wait_status_def prog_simps wait_macros Let_def alike_said)
qed

lemma matches_chatter:
  assumes "chatter est m" "chatter est m'"
  shows "matches (alike est) (=) m m'"
  unfolding matches_def
proof (intro allI impI)
  fix s s' :: "'a world_scheme"
  assume "alike est s s'"
  from chatterD [OF assms(1) this] obtain s1 where s1: "m s = (Inr (), s1)" "alike est s1 s'" by blast
  from chatterD [OF assms(2) alike_sym [OF s1(2)]] s1 alike_sym
  show "alike est (snd (m s)) (snd (m' s')) \<and> rel_sum (=) (=) (fst (m s)) (fst (m' s'))"
    by auto
qed

lemmas chatter_rules = chatter_ret chatter_bindp chatter_seqp chatter_whenp chatter_withs

section \<open>The tracer on both sides\<close>

lemma alike_bindp:
  "matches (alike est) (=) m m' \<Longrightarrow> (\<And>a. matches (alike est) (=) (k a) (k' a)) \<Longrightarrow>
   matches (alike est) (=) (bindp m k) (bindp m' k')"
  by (rule matches_bindp [where Q = "(=)"]) auto

lemma alike_whenp:
  "matches (alike est) (=) m m' \<Longrightarrow> matches (alike est) (=) (whenp b m) (whenp b m')"
  by (simp add: whenp_def matches_ret)

lemma alike_seqp:
  "list_all2 (matches (alike est) (=)) ms ms' \<Longrightarrow> matches (alike est) (=) (seqp ms) (seqp ms')"
proof (induction rule: list_all2_induct)
  case Nil
  show ?case by (simp add: matches_ret)
next
  case (Cons m ms m' ms')
  from Cons(1,3) show ?case unfolding seqp.simps by (rule alike_bindp)
qed

lemma alike_puts: "matches (alike est) (=) (fputs d f) (fputs d f)"
  by (cases f) (auto simp: fputs_def matches_die intro!: matches_upd alike_fput)

lemma alike_eprintf: "matches (alike est) (=) (eprintf d) (eprintf d)"
  by (simp add: matches_chatter)

lemma alike_exitp: "matches (alike est) P (exitp n) (exitp n)"
  by (simp add: matches_def exitp_def alike_flush_all)

lemma alike_trace_print: "matches (alike est) (=) (trace_print d) (trace_print d)"
  unfolding trace_print_def
  by (intro matches_withs) (auto simp: alike_cmd alike_puts matches_ret split: option.split)

lemma alike_close_marks: "matches (alike est) (=) close_marks close_marks"
  unfolding close_marks_def
  by (intro matches_withs) (auto simp: alike_cmd whenp_def matches_ret intro!: matches_upd alike_marks)

lemma alike_fshow_errno: "matches (alike est) (=) (fshow_errno f d err) (fshow_errno f d err)"
  unfolding fshow_errno_def
  by (intro matches_withs) (auto simp: alike_cmd alike_puts Let_def)

lemma alike_log: "matches (alike est) (=) (upd (log_request r)) (upd (log_request r))"
  by (rule matches_upd) (simp add: log_request_def alike_def)

lemma alike_set:
  "(\<And>c. quiet_cmd (f c) = f (quiet_cmd c)) \<Longrightarrow> matches (alike est) (=) (upd (upd_cmd f)) (upd (upd_cmd f))"
  by (rule matches_upd) (rule alike_upd_cmd)

lemma alike_open: "matches (alike est) (=) (upd mark_open) (upd mark_open)"
  by (intro matches_upd alike_marks)

lemmas alike_rules = alike_bindp alike_whenp alike_seqp alike_puts alike_eprintf alike_exitp
  alike_trace_print alike_close_marks alike_fshow_errno alike_log alike_set matches_ret matches_die

lemma alike_guard_ptrace: "matches (alike est) (=) (guard_ptrace r err) (guard_ptrace r err)"
  unfolding guard_ptrace_def by (intro alike_rules list.rel_intros) (simp_all add: quiet_cmd_def alike_rules)

lemma alike_guard_malloc: "matches (alike est) (=) (guard_malloc m err n) (guard_malloc m err n)"
  unfolding guard_malloc_def
  by (auto simp: eexplain_err_def fexplain_err_def alike_cmd Let_def
      intro!: alike_rules matches_withs list.rel_intros split: option.split)

lemma alike_copy_stderr: "matches (alike est) (=) (copy_stderr e a n cf) (copy_stderr e a n cf)"
  unfolding copy_stderr_def Let_def
  by (intro alike_bindp alike_guard_malloc)
    (auto simp: matches_die intro!: alike_rules list.rel_intros matches_upd alike_fwrite)

lemma alike_transfer: "matches (alike est) (=) (transfer e fd a n) (transfer e fd a n)"
  unfolding transfer_def
  by (intro matches_withs)
    (auto simp: alike_cmd alike_copy_stderr intro!: matches_upd alike_pmem_fwrite split: option.split)

lemma alike_write_entry: "matches (alike est) (=) (write_entry e r l) (write_entry e r l)"
proof -
  have talk: "matches (alike est) (=) (seqp [debug_print a, debug_print b, debug_print c])
      (seqp [debug_print a, debug_print b, debug_print c])" for a b c
    by (intro matches_chatter chatter_seqp) simp_all
  have before: "matches (alike est) (=) (upd (before_write fd a n)) (upd (before_write fd a n))" for fd a n
    by (intro matches_upd alike_marks)
  show ?thesis
    unfolding write_entry_def Let_def
    by (intro alike_bindp talk)
      (auto simp: alike_cmd quiet_cmd_def intro!: alike_bindp alike_seqp list.rel_intros alike_whenp
        alike_open alike_set before matches_withs alike_guard_ptrace alike_trace_print alike_transfer matches_ret)
qed

lemma alike_write_exit: "matches (alike est) (=) (write_exit e r l) (write_exit e r l)"
proof -
  have after: "matches (alike est) (=) (whenp b (upd (after_write fd a n))) (whenp b (upd (after_write fd a n)))"
    for b fd a n
    by (intro alike_whenp matches_upd alike_marks)
  show ?thesis
    unfolding write_exit_def Let_def
    by (intro alike_bindp after matches_withs)
      (auto simp: alike_cmd intro!: alike_bindp alike_guard_ptrace alike_trace_print matches_ret)
qed

lemma alike_handle_write: "matches (alike est) (=) (handle_write e r l) (handle_write e r l)"
proof -
  have dots: "matches (alike est) (=)
      (withs (\<lambda>s. whenp (cdebug (cmd s)) (seqp [fputs (''.'' @ nl) (Some Stderr),
        whenp (slow (cmd s)) (upd (\<lambda>s. s\<lparr>slept := Suc (slept s)\<rparr>))])))
      (withs (\<lambda>s. whenp (cdebug (cmd s)) (seqp [fputs (''.'' @ nl) (Some Stderr),
        whenp (slow (cmd s)) (upd (\<lambda>s. s\<lparr>slept := Suc (slept s)\<rparr>))])))"
    by (intro matches_chatter chatter_withs chatter_whenp chatter_seqp) (simp_all add: chatter_whenp)
  show ?thesis
    unfolding handle_write_def
    by (intro alike_bindp dots matches_ret matches_chatter chatter_debug_print)
      (auto simp: alike_write_entry alike_write_exit)
qed

lemma alike_iter: "matches (alike est) (=) (ptrace_iter e l) (ptrace_iter e l)"
proof (cases "child_ended (wait_status e)")
  case True
  have "matches (alike est) (=) (withs (\<lambda>s. whenp (cverbose (cmd s)) (eprintf d)))
      (withs (\<lambda>s. whenp (cverbose (cmd s)) (eprintf d)))" for d
    by (intro matches_chatter chatter_withs chatter_whenp) simp_all
  then show ?thesis
    using True unfolding ptrace_iter_def Let_def
    by (auto intro!: alike_bindp alike_seqp list.rel_intros alike_close_marks matches_ret)
next
  case False
  then show ?thesis
    unfolding ptrace_iter_def Let_def
    by (auto simp: alike_cmd intro!: alike_bindp alike_guard_ptrace matches_withs matches_ret matches_die
        alike_handle_write split: option.split)
qed

lemma alike_loop: "matches (alike est) (=) (ptrace_loop es l) (ptrace_loop es l)"
  by (induction es arbitrary: l)
    (auto intro!: alike_bindp alike_iter matches_ret split: ctl.split)

lemma alike_ptrace_cmd: "matches (alike est) (=) (ptrace_cmd es) (ptrace_cmd es)"
proof -
  have "matches (alike est) (=)
      (whenp b (withs (\<lambda>s. whenp (cverbose (cmd s)) (fshow_wait_status (Some Stderr) (cmd_name (cmd s)) n))))
      (whenp b (withs (\<lambda>s. whenp (cverbose (cmd s)) (fshow_wait_status (Some Stderr) (cmd_name (cmd s)) n))))"
    for b n
    by (intro matches_chatter chatter_withs chatter_whenp) simp_all
  then show ?thesis
    unfolding ptrace_cmd_def
    by (auto intro!: alike_bindp alike_loop alike_seqp list.rel_intros alike_close_marks matches_ret
        split: option.split)
qed

lemma alike_run_child: "matches (alike est) (=) (run_child err exec) (run_child err exec)"
  unfolding run_child_def execvp_def
  by (auto simp: alike_cmd quiet_cmd_def matches_die intro!: alike_bindp alike_guard_ptrace alike_set matches_ret
      matches_withs alike_puts alike_eprintf alike_exitp split: option.split)

lemma alike_run_parent: "matches (alike est) (=) (run_parent es) (run_parent es)"
proof -
  have "matches (alike est) (=) (withs (\<lambda>s. whenp (cverbose (cmd s)) (eprintf (f s))))
      (withs (\<lambda>s. whenp (cverbose (cmd s)) (eprintf (f s))))" for f
    by (intro matches_chatter chatter_withs chatter_whenp) simp_all
  then show ?thesis
    unfolding run_parent_def
    by (rule alike_bindp)
      (auto simp: alike_cmd quiet_cmd_def intro!: alike_bindp alike_ptrace_cmd alike_seqp
        list.rel_intros alike_close_marks alike_set matches_withs matches_ret split: option.split)
qed

lemma alike_run: "matches (alike est) (=) (errmark_run_program fk) (errmark_run_program fk)"
  unfolding errmark_run_program_def
  by (auto simp: quiet_cmd_def intro!: alike_bindp alike_set alike_run_child alike_run_parent split: forked.split)

lemma alike_run_command: "matches (alike est) (=) (run_command fk) (run_command fk)"
  unfolding run_command_def
  by (auto simp: quiet_cmd_def intro!: alike_bindp alike_run alike_set alike_exitp matches_ret split: option.split)

lemma alike_content:
  assumes "alike est s t" "st \<noteq> Stderr" "st \<noteq> est"
  shows "content st s = content st t" "flow st s = flow st t" "requests s = requests t"
proof -
  have part: "filter (\<lambda>w. fst w = st) ws = filter (\<lambda>w. fst w = st) (filter (\<lambda>w. \<not> said est (fst w)) ws)"
    for ws :: "(stream \<times> string) list"
    using assms(2,3) by (induction ws) (auto simp: said_def)
  have "filter (\<lambda>w. \<not> said est (fst w)) (written s) = filter (\<lambda>w. \<not> said est (fst w)) (written t)"
    using assms(1) unfolding alike_def by (rule conjunct1)
  then show "content st s = content st t"
    unfolding content_def part [of "written s"] part [of "written t"] by (simp only:)
  then show "flow st s = flow st t"
    using assms by (simp add: flow_def alike_def said_def)
  show "requests s = requests t"
    using assms(1) by (simp add: alike_def)
qed

text \<open>Sides that are alike end alike, with the same output but for what was said.\<close>

lemma alike_ends:
  assumes "matches (alike est) (=) m m'" "alike est s t" "st \<noteq> Stderr" "st \<noteq> est"
  shows "fst (m s) = fst (m' t) \<and> content st (snd (m s)) = content st (snd (m' t)) \<and>
    flow st (snd (m s)) = flow st (snd (m' t)) \<and> requests (snd (m s)) = requests (snd (m' t))"
proof -
  have end_alike: "alike est (snd (m s)) (snd (m' t))" and "fst (m s) = fst (m' t)"
    using matchesD [OF assms(1,2)] by (simp_all add: sum.rel_eq)
  with alike_content [OF end_alike assms(3,4)] show ?thesis by simp
qed

section \<open>main with a flag and without\<close>

lemma main_no_flag:
  assumes "list_all (item_ok ok) its" "command_line cl"
    and "argv = p # concat (map render its) @ cl"
  shows "\<exists>g. main_prog e argv (init_errmark dr) =
      finish_main e argv 0 ((fold apply_item its (start_main e [p] (init_errmark dr)))\<lparr>gopt := g\<rparr>) \<and>
    drop (optind g) argv = cl \<and> optind g \<le> length argv"
proof -
  let ?pre = "p # concat (map render its)"
  obtain s n where
    run: "main_prog e argv (init_errmark dr) = bindp (option_loop (Suc n) argv 0)
        (\<lambda>r. case r of None \<Rightarrow> ret () | Some k \<Rightarrow> finish_main e argv k) s" and
    s: "nextchar (gopt s) = []" "optind (gopt s) = length ?pre"
      "s = (fold apply_item its (start_main e [p] (init_errmark dr)))\<lparr>gopt := gopt s\<rparr>"
    using main_prefix [OF assms(1,3), where e = e and dr = dr] by blast
  from getopt_stop [OF s(1,2) assms(2)] have
    "getopt_long ''hVdv'' long_options argv (gopt s) = (-1, (gopt s)\<lparr>optarg := None\<rparr>)"
    by (simp add: assms(3))
  moreover have "s\<lparr>gopt := g\<rparr> = (fold apply_item its (start_main e [p] (init_errmark dr)))\<lparr>gopt := g\<rparr>" for g
    by (subst s(3)) simp
  ultimately have "main_prog e argv (init_errmark dr) = finish_main e argv 0
      ((fold apply_item its (start_main e [p] (init_errmark dr)))\<lparr>gopt := (gopt s)\<lparr>optarg := None\<rparr>\<rparr>)"
    using option_loop_Suc [of 0 argv s "-1" _ n] by (simp add: run bindp_run)
  then show ?thesis
    using s(2) assms(3) by (intro exI [of _ "(gopt s)\<lparr>optarg := None\<rparr>"]) simp
qed

lemma main_flag:
  assumes "list_all (item_ok ok) its" "command_line cl"
    and "flag \<in> {''-v'', ''--verbose'', ''-d'', ''--debug''}"
    and "argv = p # concat (map render its) @ flag # cl"
  shows "\<exists>g v d. main_prog e argv (init_errmark dr) =
      finish_main e argv 0 ((fold apply_item its (start_main e [p] (init_errmark dr)))
        \<lparr>verbose := v, debug := d, gopt := g\<rparr>) \<and>
    (v \<or> d) \<and> drop (optind g) argv = cl \<and> optind g \<le> length argv"
proof -
  let ?pre = "p # concat (map render its)"
  let ?R = "fold apply_item its (start_main e [p] (init_errmark dr))"
  obtain s n where
    run: "main_prog e argv (init_errmark dr) = bindp (option_loop (Suc n) argv 0)
        (\<lambda>r. case r of None \<Rightarrow> ret () | Some k \<Rightarrow> finish_main e argv k) s" and
    s: "nextchar (gopt s) = []" "optind (gopt s) = length ?pre" "\<not> debug s" "length (flag # cl) \<le> n"
      "s = ?R\<lparr>gopt := gopt s\<rparr>"
    using main_prefix [OF assms(1,4), where e = e and dr = dr] by blast
  from s(4) obtain m where n: "n = Suc m" by (cases n) auto
  from getopt_flag [OF s(1,2) assms(3), of cl] obtain optc g where
    g: "getopt_long ''hVdv'' long_options argv (gopt s) = (optc, g)" "optc = 118 \<or> optc = 100"
      "nextchar g = []" "optind g = length (?pre @ [flag])"
    by (auto simp: assms(4))
  from after_flag [of "s\<lparr>gopt := g\<rparr>" optc "arg_at argv (length ?pre)" 0] g(2) s(3) obtain v d where
    flag: "after_getopt (arg_at argv (length ?pre)) optc 0 (s\<lparr>gopt := g\<rparr>) =
      (Inr 0, s\<lparr>gopt := g, verbose := v, debug := d\<rparr>)" "v \<or> d"
    by auto
  define t where "t = s\<lparr>gopt := g, verbose := v, debug := d\<rparr>"
  have stop: "getopt_long ''hVdv'' long_options argv (gopt t) = (-1, g\<lparr>optarg := None\<rparr>)"
    using getopt_stop [OF g(3,4) assms(2)] by (simp add: assms(4) t_def)
  have "option_loop (Suc n) argv 0 s = option_loop n argv 0 t"
    using option_loop_Suc [OF _ g(1), of 0 n] g(2) flag(1) s(2)
    by (auto simp: bindp_run t_def)
  also have "\<dots> = (Inr (Some 0), t\<lparr>gopt := g\<lparr>optarg := None\<rparr>\<rparr>)"
    using option_loop_Suc [OF _ stop, of 0 m] by (simp add: n)
  also have "t\<lparr>gopt := g\<lparr>optarg := None\<rparr>\<rparr> = ?R\<lparr>verbose := v, debug := d, gopt := g\<lparr>optarg := None\<rparr>\<rparr>"
    unfolding t_def by (subst s(5)) simp
  finally have "main_prog e argv (init_errmark dr) =
      finish_main e argv 0 (?R\<lparr>verbose := v, debug := d, gopt := g\<lparr>optarg := None\<rparr>\<rparr>)"
    by (simp add: run bindp_run)
  then show ?thesis
    using g(4) flag(2) assms(4) by (intro exI [of _ "g\<lparr>optarg := None\<rparr>"] exI [of _ v] exI [of _ d]) simp
qed

text \<open>What is left of \<open>main\<close> once the command is known.\<close>

definition commanded :: "string list \<Rightarrow> 'a errmark_scheme \<Rightarrow> 'a errmark_scheme" where
  "commanded cl s =
     upd_cmd (\<lambda>c. c\<lparr>cmd_path := arg_at cl 0, cmd_name := sname (arg_at cl 0),
       cargc := int (length cl), cargv := cl, nullify := True, slow := True\<rparr>) (set_verbose s)"

lemma finish_main_commanded:
  assumes "drop (optind (gopt s)) argv = cl" "optind (gopt s) \<le> length argv" "argv \<noteq> []"
  shows "finish_main e argv 0 s =
    bindp (whenp (verbose s \<or> debug s) (fshow_str_array (Some Stderr) (length cl) cl))
      (\<lambda>_. seqp [open_copy (can_open e), run_command (fork e)]) (commanded cl s)"
proof -
  let ?i = "optind (gopt s)"
  have "arg_at argv ?i = arg_at cl 0" using assms(1) by (auto simp: arg_at_def)
  moreover have "int (length argv) - int ?i = int (length cl)" using assms(1,2) by auto
  moreover have "gopt (set_verbose s) = gopt s" by (simp add: set_verbose_def Let_def upd_cmd_def)
  ultimately have "set_command argv (set_verbose s) = (Inr (), commanded cl s)"
    using assms(1) by (simp add: set_command_def commanded_def withs_run upd_run Let_def)
  moreover have "verbose (commanded cl s) = (verbose s \<or> debug s)" "cargv (cmd (commanded cl s)) = cl"
    "cargc (cmd (commanded cl s)) = int (length cl)"
    by (simp_all add: commanded_def set_verbose_def upd_cmd_def Let_def)
  ultimately show ?thesis
    using assms(3) by (simp add: finish_main_def whenp_def bindp_run withs_run upd_run ret_run)
qed

lemma alike_commanded:
  assumes "alike est s t"
  shows "alike est (commanded cl s) (commanded cl t)"
proof -
  have "quiet_cmd (c\<lparr>cverbose := v, cdebug := d\<rparr>) = quiet_cmd c" for c v d
    by (simp add: quiet_cmd_def)
  then have "alike est (set_verbose s) (set_verbose t)"
    using assms by (simp add: set_verbose_def Let_def alike_def upd_cmd_def)
  then show ?thesis
    unfolding commanded_def by (rule alike_upd_cmd) (simp add: quiet_cmd_def)
qed

lemma alike_open_copy: "matches (alike est) (=) (open_copy ok) (open_copy ok)"
proof -
  have opens: "matches (alike est) (=) (try_fopen ok nm) (try_fopen ok nm)" for nm
    unfolding try_fopen_def by (auto intro!: alike_bindp matches_upd alike_fopen matches_ret)
  show ?thesis
    unfolding open_copy_def
    by (auto simp: alike_cmd quiet_cmd_def intro!: alike_bindp alike_set opens matches_withs
        alike_eprintf alike_exitp matches_ret split: option.split)
qed

lemma chatter_fshow_str: "ascii d \<Longrightarrow> chatter est (fshow_str (Some Stderr) d)"
proof (induction d)
  case (Cons c d)
  then have "chatter est (fshow_str (Some Stderr) d :: ('a world_scheme, unit) prog)" "(of_char c :: nat) < 128"
    by simp_all
  then show ?case by (auto simp: chatter_def bindp_run fputs_Some upd_run alike_said)
qed (simp add: chatter_ret)

lemma chatter_fshow_rows:
  "list_all ascii av \<Longrightarrow> chatter est (fshow_rows (Some Stderr) w (length av) av i)"
proof (induction "length av - i" arbitrary: i)
  case 0
  then show ?case by (simp add: fshow_rows.simps [of _ _ _ _ i] chatter_ret)
next
  case (Suc n)
  from Suc.hyps(2) have "n = length av - Suc i" by simp
  then have "chatter est (fshow_rows (Some Stderr) w (length av) av (Suc i) :: ('a world_scheme, unit) prog)"
    using Suc.prems by (rule Suc.hyps(1))
  moreover have "ascii (av ! i)" "i < length av"
    using Suc.prems Suc.hyps(2) by (auto simp: list_all_length)
  ultimately show ?case
    by (auto simp: fshow_rows.simps [of _ _ _ _ i] chatter_fshow_str chatter_ret
        simp del: seqp.simps intro!: chatter_bindp chatter_seqp)
qed

lemma fshow_array_rows:
  assumes "length av < 2 ^ 32"
  shows "fshow_str_array f (length av) av = fshow_rows f (length (dec (length av))) (length av) av 0"
proof -
  have "length (dec (length av)) \<le> 19" using assms by (simp add: length_num_le)
  then show ?thesis by (simp add: fshow_str_array_def)
qed

text \<open>The two sides from the end of the options on.\<close>

lemma finish_main_alike:
  assumes "alike est s t" "list_all ascii cl" "length cl < 2 ^ 32" "argv \<noteq> []" "argv' \<noteq> []" "st \<noteq> Stderr" "st \<noteq> est"
    and "drop (optind (gopt s)) argv = cl" "optind (gopt s) \<le> length argv"
    and "drop (optind (gopt t)) argv' = cl" "optind (gopt t) \<le> length argv'"
  shows "fst (finish_main e argv 0 s) = fst (finish_main e argv' 0 t) \<and>
    content st (snd (finish_main e argv 0 s)) = content st (snd (finish_main e argv' 0 t)) \<and>
    requests (snd (finish_main e argv 0 s)) = requests (snd (finish_main e argv' 0 t))"
proof -
  let ?show = "\<lambda>b. whenp b (fshow_str_array (Some Stderr) (length cl) cl)"
  let ?rest = "\<lambda>_. seqp [open_copy (can_open e), run_command (fork e)]"
  have "chatter est (?show b)" for b
    by (simp add: fshow_array_rows [OF assms(3)] chatter_whenp chatter_fshow_rows assms(2))
  then have "matches (alike est) (=) (bindp (?show b) ?rest) (bindp (?show b') ?rest)" for b b'
    by (intro alike_bindp matches_chatter alike_seqp list.rel_intros alike_open_copy alike_run_command)
  from alike_ends [OF this alike_commanded [OF assms(1)] assms(6,7)] show ?thesis
    using finish_main_commanded [OF assms(8,9,4)] finish_main_commanded [OF assms(10,11,5)] by simp
qed

text \<open>Showing the arguments makes no request.\<close>

lemma same_requests_array: "keeps (same_requests :: 'a world_scheme \<Rightarrow> _) (fshow_str_array f n av)"
proof -
  have "keeps (same_requests :: 'a world_scheme \<Rightarrow> _) (fshow_rows f w n av i)" for w i
  proof (induction "n - i" arbitrary: i)
    case 0
    then show ?case by (simp add: fshow_rows.simps [of _ _ _ _ i] same_requests.keeps_ret)
  next
    case (Suc k)
    from Suc.hyps(2) have "k = n - Suc i" by simp
    then have "keeps (same_requests :: 'a world_scheme \<Rightarrow> _) (fshow_rows f w n av (Suc i))" by (rule Suc.hyps(1))
    then show ?case
      by (auto simp: fshow_rows.simps [of _ _ _ _ i] same_requests_fshow_str intro!: same_requests.keeps_rules
          same_requests_fputs)
  qed
  then show ?thesis by (simp add: fshow_str_array_def same_requests.keeps_die)
qed

lemma finish_main_overflow:
  assumes "\<not> list_all ascii cl" "verbose s \<or> debug s" "argv \<noteq> []"
    and "drop (optind (gopt s)) argv = cl" "optind (gopt s) \<le> length argv"
  shows "fst (finish_main e argv 0 s) = Inl (Fault Buffer_overflow) \<and>
    requests (snd (finish_main e argv 0 s)) = requests s"
proof -
  let ?show = "fshow_str_array (Some Stderr) (length cl) cl"
  have "fst (?show t) = Inl (Fault Buffer_overflow)" for t :: "'a errmark_scheme"
    using assms(1) by (simp add: fshow_str_array_def die_run fshow_rows_fault)
  moreover have "requests (snd (?show (commanded cl s))) = requests s"
  proof -
    have "same_requests (commanded cl s) (snd (?show (commanded cl s)))"
      using same_requests_array unfolding keeps_def by blast
    then show ?thesis
      by (simp add: same_requests_def commanded_def set_verbose_def Let_def frame_simps)
  qed
  ultimately obtain t where
    "?show (commanded cl s) = (Inl (Fault Buffer_overflow), t)" "requests t = requests s"
    by (metis prod.collapse)
  then show ?thesis
    using finish_main_commanded [OF assms(4,5,3)] assms(2) by (simp add: whenp_def bindp_run)
qed

lemma ready_alike:
  assumes "t = (fold apply_item its (start_main e [p] (init_errmark dr)))\<lparr>gopt := g\<rparr>"
  shows "alike (error_stream e) (t\<lparr>verbose := v, debug := d, gopt := g'\<rparr>) t"
proof -
  have "errprint_fh t = Some (error_stream e)" "clib t = plain_libc"
    using assms
    by (auto simp: apply_items_kept start_main_def set_eprint_fh_def stderr_redirected_def
        error_stream_def Let_def init_states split: option.splits if_splits)
  then show ?thesis by (simp add: alike_def plain_libc_def)
qed

section \<open>Properties\<close>

text \<open>
  C17: talking changes nothing else. Whatever the kernel and the child do, a run with any of the
  flags \<open>verbose\<close> and \<open>debug\<close> set, in the globals and in the command, ends as the run without
  them does, makes the same requests, and outputs the same to every stream but stderr and \<open>est\<close>,
  the stream for errors. That is stdout if stdout and stderr are the same file: then the
  files are all that is sure to be the same, else stdout is too.
\<close>

theorem run_talk:
  fixes s :: "'a world_scheme"
  assumes "errprint_fh s = Some est" "0 \<le> sigrtmin (clib s)" "st \<noteq> Stderr" "st \<noteq> est"
    and "t = s\<lparr>verbose := v, debug := d, cmd := (cmd s)\<lparr>cverbose := cv, cdebug := cd\<rparr>\<rparr>"
  shows "fst (errmark_run_program fk t) = fst (errmark_run_program fk s) \<and>
    requests (snd (errmark_run_program fk t)) = requests (snd (errmark_run_program fk s)) \<and>
    content st (snd (errmark_run_program fk t)) = content st (snd (errmark_run_program fk s)) \<and>
    flow st (snd (errmark_run_program fk t)) = flow st (snd (errmark_run_program fk s))"
proof -
  have "alike est t s" using assms(1,2,5) by (simp add: alike_def quiet_cmd_def)
  from alike_ends [OF alike_run this assms(3,4)] show ?thesis by blast
qed

theorem run_talk_witness:
  "flow Stdout (snd (errmark_run_program (In_parent 7 [demo_exit])
     (demo_world\<lparr>errprint_fh := Some Stderr, verbose := True, debug := True,
        cmd := (cmd demo_world)\<lparr>cverbose := True, cdebug := True\<rparr>\<rparr>))) =
   flow Stdout (snd (errmark_run_program (In_parent 7 [demo_exit]) (demo_world\<lparr>errprint_fh := Some Stderr\<rparr>))) \<and>
   flow (Opened ''errs'') (snd (errmark_run_program (In_parent 7 [demo_exit])
     (demo_world\<lparr>errprint_fh := Some Stdout, verbose := True, debug := True,
        cmd := (cmd demo_world)\<lparr>cverbose := True, cdebug := True\<rparr>\<rparr>))) =
   flow (Opened ''errs'') (snd (errmark_run_program (In_parent 7 [demo_exit]) (demo_world\<lparr>errprint_fh := Some Stdout\<rparr>)))"
  using run_talk [of "demo_world\<lparr>errprint_fh := Some Stderr\<rparr>" Stderr Stdout, OF _ _ _ _ refl, of "In_parent 7 [demo_exit]"
      True True True True]
    run_talk [of "demo_world\<lparr>errprint_fh := Some Stdout\<rparr>" Stdout "Opened ''errs''", OF _ _ _ _ refl,
      of "In_parent 7 [demo_exit]" True True True True]
  by (simp add: demo_world_def init_states)

text \<open>
  C5: the whole command with \<open>-v\<close> or \<open>-d\<close>, or their long forms, as its last option, and
  arguments of 7-bit characters: the exit code, the requests, and what is output to any stream
  but stderr and the stream for errors are the same as without it. Where stdout and stderr are
  different files the stream for errors is stderr, so that stdout and the file copied to are
  given the same; where they are one file it is stdout, and the messages are there.
\<close>

theorem main_talk:
  assumes "list_all (item_ok (can_open e)) its" "command_line cl" "list_all ascii cl" "length cl < 2 ^ 32"
    and "flag \<in> {''-v'', ''--verbose'', ''-d'', ''--debug''}" "st \<noteq> Stderr" "st \<noteq> error_stream e"
    and "s = main_prog e (p # concat (map render its) @ cl) (init_errmark dr)"
    and "t = main_prog e (p # concat (map render its) @ flag # cl) (init_errmark dr)"
  shows "fst t = fst s \<and> requests (snd t) = requests (snd s) \<and> content st (snd t) = content st (snd s)"
proof -
  let ?R = "fold apply_item its (start_main e [p] (init_errmark dr))"
  let ?argv = "p # concat (map render its) @ cl" and ?argv' = "p # concat (map render its) @ flag # cl"
  obtain g where g: "s = finish_main e ?argv 0 (?R\<lparr>gopt := g\<rparr>)" "drop (optind g) ?argv = cl"
    "optind g \<le> length ?argv"
    using main_no_flag [OF assms(1,2) refl, where e = e and p = p and dr = dr] assms(8) by auto
  obtain g' v d where g': "t = finish_main e ?argv' 0 (?R\<lparr>verbose := v, debug := d, gopt := g'\<rparr>)"
    "drop (optind g') ?argv' = cl" "optind g' \<le> length ?argv'"
    using main_flag [OF assms(1,2,5) refl, where e = e and p = p and dr = dr] assms(9) by auto
  have "alike (error_stream e) (?R\<lparr>verbose := v, debug := d, gopt := g'\<rparr>) (?R\<lparr>gopt := g\<rparr>)"
    using ready_alike [OF refl, where its = its and dr = dr and p = p and g = g and v = v and d = d and g' = g'] by simp
  from finish_main_alike [OF this assms(3,4) _ _ assms(6,7), of ?argv' ?argv e] g g' show ?thesis by simp
qed

theorem main_talk_witness:
  "fst (main_prog \<lparr>stat1 = None, stat2 = None, can_open = (\<lambda>_. True),
       fork = In_parent 7 (concat (map rounds demo_run) @ [demo_exit])\<rparr>
     (''errmark'' # concat (map render [Color_item ''red'']) @ ''-d'' # [''ls'']) (init_errmark usual_drain)) =
   fst (main_prog \<lparr>stat1 = None, stat2 = None, can_open = (\<lambda>_. True),
       fork = In_parent 7 (concat (map rounds demo_run) @ [demo_exit])\<rparr>
     (''errmark'' # concat (map render [Color_item ''red'']) @ [''ls'']) (init_errmark usual_drain))"
proof -
  have "item_ok ok (Color_item ''red'')" "command_line [''ls'']" "ascii ''ls''" for ok
    by (simp_all add: lookup_color_def normal_colors_def command_line_def)
  then show ?thesis
    using main_talk [where its = "[Color_item ''red'']" and cl = "[''ls'']" and flag = "''-d''"
        and st = Stdout and p = "''errmark''" and e = "\<lparr>stat1 = None, stat2 = None, can_open = (\<lambda>_. True),
          fork = In_parent 7 (concat (map rounds demo_run) @ [demo_exit])\<rparr>", OF _ _ _ _ _ _ _ refl refl]
    by (simp add: error_stream_def del: item_ok.simps render.simps)
qed

text \<open>
  C36: with one of these flags and a byte of 128 or more in the command's name or arguments, the
  program writes past the end of a buffer while it shows them, before the command is run.
\<close>

theorem verbose_overflow:
  assumes "list_all (item_ok (can_open e)) its" "command_line cl" "\<not> list_all ascii cl"
    and "flag \<in> {''-v'', ''--verbose'', ''-d'', ''--debug''}"
    and "t = main_prog e (p # concat (map render its) @ flag # cl) (init_errmark dr)"
  shows "fst t = Inl (Fault Buffer_overflow) \<and> requests (snd t) = []"
proof -
  let ?R = "fold apply_item its (start_main e [p] (init_errmark dr))"
  let ?argv = "p # concat (map render its) @ flag # cl"
  obtain g v d where g: "t = finish_main e ?argv 0 (?R\<lparr>verbose := v, debug := d, gopt := g\<rparr>)"
    "v \<or> d" "drop (optind g) ?argv = cl" "optind g \<le> length ?argv"
    using main_flag [OF assms(1,2,4) refl, where e = e and p = p and dr = dr] assms(5) by auto
  have "requests ?R = []"
    by (simp add: apply_items_kept start_main_def set_eprint_fh_def Let_def init_states)
  then show ?thesis
    using finish_main_overflow [OF assms(3), of "?R\<lparr>verbose := v, debug := d, gopt := g\<rparr>" ?argv e] g by simp
qed

theorem verbose_overflow_witness:
  "fst (main_prog \<lparr>stat1 = None, stat2 = None, can_open = (\<lambda>_. True), fork = In_child 0 (\<lambda>_ _. None)\<rparr>
     (''errmark'' # concat (map render []) @ ''-v'' # [''ls'', [CHR 0xE9]]) (init_errmark usual_drain)) =
   Inl (Fault Buffer_overflow)"
  using verbose_overflow [where its = "[]" and cl = "[''ls'', [CHR 0xE9]]" and flag = "''-v''"
      and p = "''errmark''" and e = "\<lparr>stat1 = None, stat2 = None, can_open = (\<lambda>_. True), fork = In_child 0 (\<lambda>_ _. None)\<rparr>",
      OF _ _ _ _ refl]
  by (simp add: command_line_def)

end
