(* ===== verification/Options_Safe.thy ===== *)
theory Options_Safe
  imports Whole_Program
begin

text \<open>
  The option loop on every command line, well-formed or not: the state of \<open>getopt\<close> stays well
  formed, no null pointer is read and no array is overrun.
\<close>

section \<open>The values of options\<close>

text \<open>The options that \<open>getopt_long\<close> can return to \<open>main\<close>, and the values they come with.\<close>

definition option_codes :: "int set" where
  "option_codes = {86, 104, 100, 118, 63, OPT_MARK, OPT_COLOR, OPT_COPY}"

lemma option_letters: "schar ` set ''hVdv'' = {86, 104, 100, 118}"
  by (auto simp: schar_letters)

lemma suffix_ascii: "suffix a x \<Longrightarrow> ascii x \<Longrightarrow> ascii a"
  unfolding ascii_def by (auto simp: suffix_def)

lemma getopt_codes:
  assumes "getopt_long ''hVdv'' long_options argv g = (optc, g')" "optc \<noteq> -1"
  shows "optc \<in> option_codes \<and> (optc \<in> {OPT_MARK, OPT_COLOR, OPT_COPY} \<longrightarrow>
    (\<exists>a. optarg g' = Some a \<and> (list_all ascii argv \<longrightarrow> ascii a)))"
proof (cases "optc = 63 \<or> optc \<in> {86, 104, 100, 118}")
  case True
  then show ?thesis by (auto simp: option_codes_def opt_values)
next
  case False
  with getopt_result [OF assms(1,2)] obtain p where
    p: "p \<in> set long_options" "lval p = optc" "larg p = Required_argument \<Longrightarrow>
      \<exists>a x. optarg g' = Some a \<and> x \<in> set argv \<and> suffix a x"
    unfolding option_letters by auto
  from p(1,2) False have "larg p = Required_argument \<and> optc \<in> {OPT_MARK, OPT_COLOR, OPT_COPY}"
    by (auto simp: long_options_def schar_letters)
  with p(3) show ?thesis
    by (auto simp: option_codes_def list_all_iff intro: suffix_ascii)
qed

section \<open>The handlers\<close>

text \<open>
  What the handlers rely on, and how the loop may end: with bytes of 128 and more (\<open>\<not> b\<close>) a
  mark specification that is shown overruns a buffer.
\<close>

definition ready :: "'a errmark_scheme \<Rightarrow> bool" where
  "ready s \<longleftrightarrow> errprint_fh s \<noteq> None \<and> program_name s \<noteq> None \<and> dbgprint_fh s = None"

definition overruns :: "bool \<Rightarrow> halt set" where
  "overruns b = (if b then {} else {Fault Buffer_overflow})"

definition safe_end :: "bool \<Rightarrow> halt + 'b \<Rightarrow> bool" where
  "safe_end b r \<longleftrightarrow>
     (case r of Inl h \<Rightarrow> h \<in> {Exit 0, Exit 2, Fault Null_stream} \<union> overruns b | Inr _ \<Rightarrow> True)"

lemma ready_kept: "keeps same_gopt m \<Longrightarrow> m s = (r, s') \<Longrightarrow> ready s \<Longrightarrow> ready s' \<and> gopt s' = gopt s"
  using keeps_goptD [of m s r s'] by (simp add: ready_def)

lemma parse_mark_specs_total: "\<not> debug s \<Longrightarrow> \<exists>b s'. parse_mark_specs m s = (Inr b, s') \<and> \<not> debug s'"
proof -
  assume s: "\<not> debug s"
  have dup: "\<exists>x. strndup p n = Inr x" if "p = None \<longrightarrow> n = 0" for p n
    using that by (auto simp: strndup_def split: option.split)
  show ?thesis
  proof (cases "\<exists>c sep rest. m = c # sep # rest \<and> (c = CHR ''1'' \<or> c = CHR ''2'')")
    case True
    then obtain c sep rest where m: "m = c # sep # rest" "c = CHR ''1'' \<or> c = CHR ''2''" by blast
    obtain p n q k where scan: "scan_marks sep rest = ((p, n), (q, k))"
      by (cases "scan_marks sep rest") auto
    then have "p = None \<longrightarrow> n = 0" "q = None \<longrightarrow> k = 0"
      by (auto simp: scan_marks_def Let_def split: if_splits list.splits)
    then obtain x y where "strndup p n = Inr x" "strndup q k = Inr y" using dup by metis
    then show ?thesis
      using s m scan
      by (cases "c = CHR ''1''") (auto simp: parse_mark_specs_def prog_simps schar_def)
  next
    case False
    with s show ?thesis
      by (cases m; cases "tl m") (auto simp: parse_mark_specs_def prog_simps)
  qed
qed

lemma opt_mark_safe:
  assumes "\<not> debug s" "b \<longrightarrow> ascii m"
  shows "safe_end b (fst (opt_mark m s))"
proof -
  obtain ok s' where parsed: "parse_mark_specs m s = (Inr ok, s')"
    using parse_mark_specs_total [OF assms(1)] by blast
  show ?thesis
  proof (cases "ascii m")
    case True
    with parsed show ?thesis
      by (simp add: opt_mark_def safe_end_def exitp_def fshow_str_ascii prog_simps)
  next
    case False
    obtain r' t where "fshow_str (Some Stderr) m (fput Stderr (''--mark='' @ [CHR 0x27]) s') = (r', t)"
      by fastforce
    with fshow_str_fault [OF False, of Stderr "fput Stderr (''--mark='' @ [CHR 0x27]) s'"]
    have "fshow_str (Some Stderr) m (fput Stderr (''--mark='' @ [CHR 0x27]) s') =
        (Inl (Fault Buffer_overflow), t)" by simp
    with parsed False assms(2) show ?thesis
      by (simp add: opt_mark_def safe_end_def overruns_def prog_simps)
  qed
qed

lemma color_rows_return: "\<exists>s'. color_rows (Some st) i table s = (Inr (), s')"
  by (induction table arbitrary: i s) (auto simp: prog_simps)

lemma opt_color_safe: "safe_end b (fst (opt_color nm s))"
proof (cases "lookup_color (Some nm)")
  case None
  have "\<exists>s'. fshow_color_table (Some Stderr) table s = (Inr (), s')" for table and s :: "'a errmark_scheme"
    by (simp add: fshow_color_table_def color_rows_return)
  then have "\<exists>s'. seqp [
      fputs (''Unknown color, '' @ [CHR 0x27] @ nm @ [CHR 0x27] @ ''.'' @ nl) (Some Stderr),
      fputs (''Known color names are:'' @ nl) (Some Stderr), fputs ''    '' (Some Stderr),
      fshow_color_table (Some Stderr) normal_colors, fputs nl (Some Stderr), fputs ''    '' (Some Stderr),
      fshow_color_table (Some Stderr) bright_colors, fputs nl (Some Stderr)] s = (Inr (), s')"
    by (simp add: fputs_Some bindp_run upd_run ret_run split: prod.split sum.split)
      (metis Pair_inject sum.distinct(1))
  with None show ?thesis by (auto simp: opt_color_def safe_end_def bindp_run exitp_def)
next
  case (Some ent)
  then show ?thesis by (simp add: opt_color_def setmark_def safe_end_def prog_simps)
qed

lemma handle_option_safe:
  assumes "ready s" "\<not> debug s" "optc \<in> option_codes" "arg \<noteq> None"
    and "optc \<in> {OPT_MARK, OPT_COLOR, OPT_COPY} \<longrightarrow> (\<exists>a. optarg (gopt s) = Some a \<and> (b \<longrightarrow> ascii a))"
  shows "safe_end b (fst (handle_option arg optc k s))"
proof -
  have tail: "safe_end b (fst (bindp m (\<lambda>_. ret k) s))" if "safe_end b (fst (m s))"
    for m :: "('a errmark_scheme, unit) prog"
    using that by (auto simp: safe_end_def bindp_run ret_run split: prod.splits sum.splits)
  consider "optc = 86" | "optc = 104" | "optc = 100" | "optc = 118" | "optc = 63"
    | (mark) "optc = OPT_MARK" | (color) "optc = OPT_COLOR" | "optc = OPT_COPY"
    using assms(3) by (auto simp: option_codes_def)
  then show ?thesis
  proof cases
    case mark
    with assms(5) obtain a where "optarg (gopt s) = Some a" "b \<longrightarrow> ascii a" by auto
    then have "safe_end b (fst (with_optarg opt_mark s))"
      using opt_mark_safe [OF assms(2)] by (simp add: with_optarg_def withs_run)
    with tail [of "with_optarg opt_mark"] mark show ?thesis by (simp add: handle_option_def opt_values)
  next
    case color
    with assms(5) obtain a where "optarg (gopt s) = Some a" by auto
    then have "safe_end b (fst (with_optarg opt_color s))"
      using opt_color_safe by (simp add: with_optarg_def withs_run)
    with tail [of "with_optarg opt_color"] color show ?thesis by (simp add: handle_option_def opt_values)
  qed (use assms(1,4) in \<open>auto simp: handle_option_def opt_values safe_end_def exitp_def eprint_def
      eprintf_def show_program_version_def fshow_program_version_def ready_def prog_simps frame_simps\<close>)
qed

lemma after_getopt_safe:
  assumes "ready s" "optc \<in> option_codes" "arg \<noteq> None"
    and "optc \<in> {OPT_MARK, OPT_COLOR, OPT_COPY} \<longrightarrow> (\<exists>a. optarg (gopt s) = Some a \<and> (b \<longrightarrow> ascii a))"
  shows "safe_end b (fst (after_getopt arg optc k s))"
proof (cases "debug s")
  case True
  with assms(1) show ?thesis
    by (simp add: after_getopt_def debug_optc_def bindp_run withs_run whenp_run dbg_printf_null
        ready_def safe_end_def)
next
  case False
  let ?optc = "if optc = 63 \<and> optopt (gopt s) = 63 then 104 else optc"
  have "safe_end b (fst (handle_option arg ?optc k s))"
    using assms by (intro handle_option_safe [OF assms(1) False])
      (auto simp: option_codes_def opt_values)
  then show ?thesis
    using False
    by (simp add: after_getopt_def debug_optc_def bindp_run withs_run whenp_run schar_letters split: if_splits)
      auto
qed

section \<open>The loop\<close>

text \<open>If the loop returns, what follows it finds the streams set and \<open>optind\<close> within \<open>argv\<close>.\<close>

definition loop_end :: "string list \<Rightarrow> (halt + nat option) \<times> 'a errmark_scheme \<Rightarrow> bool" where
  "loop_end argv p \<longleftrightarrow> safe_end (list_all ascii argv) (fst p) \<and>
     (\<forall>j. fst p = Inr (Some j) \<longrightarrow> ready (snd p) \<and> optind (gopt (snd p)) \<le> length argv)"

lemma option_loop_safe_from:
  assumes "ready s" "getopt_wf argv (gopt s)"
  shows "loop_end argv (option_loop n argv k s)"
  using assms
proof (induction n arbitrary: k s)
  case 0
  then show ?case by (simp add: ret_run loop_end_def safe_end_def)
next
  case (Suc n)
  obtain optc g where g: "getopt_long ''hVdv'' long_options argv (gopt s) = (optc, g)" by fastforce
  show ?case
  proof (cases "k \<le> 10 \<and> optc \<noteq> -1")
    case False
    with Suc.prems getopt_bound [OF Suc.prems(2) g] show ?thesis
      using option_loop_Suc [OF _ g, of k n]
      by (cases "k \<le> 10") (auto simp: loop_end_def safe_end_def ready_def getopt_wf_def eprintf_def
          prog_simps frame_simps same_gopt_upd(1) [unfolded same_gopt_def])
  next
    case True
    then have k: "k \<le> 10" and optc: "optc \<noteq> -1" by simp_all
    let ?arg = "arg_at argv (if optind (gopt s) \<noteq> 0 then optind (gopt s) else 1)"
    note step = getopt_wf_step [OF Suc.prems(2) g optc]
    have arg: "?arg \<noteq> None" using step Suc.prems(2) by (simp add: arg_at_def getopt_wf_def)
    have ready: "ready (s\<lparr>gopt := g\<rparr>)" using Suc.prems(1) by (simp add: ready_def)
    obtain r s' where run: "after_getopt ?arg optc k (s\<lparr>gopt := g\<rparr>) = (r, s')" by fastforce
    have safe: "safe_end (list_all ascii argv) r"
      using after_getopt_safe [OF ready _ arg, of optc "list_all ascii argv" k]
        getopt_codes [OF g optc] run by simp
    have kept: "ready s'" "gopt s' = g"
      using ready_kept [OF same_gopt_after run ready] by simp_all
    from Suc.IH [OF kept(1)] kept(2) step have "loop_end argv (option_loop n argv j s')" for j by simp
    moreover have "option_loop (Suc n) argv k s = (case r of Inl h \<Rightarrow> (Inl h, s') | Inr j \<Rightarrow> option_loop n argv j s')"
      using option_loop_Suc [OF k g, of n] optc run by (simp add: bindp_run del: option_loop.simps)
    ultimately show ?thesis
      using safe by (cases r) (simp_all add: loop_end_def safe_end_def del: option_loop.simps)
  qed
qed

text \<open>The loop as \<open>main\<close> runs it.\<close>

lemma option_loop_main:
  assumes "argv \<noteq> []"
    and "option_loop (enough_fuel argv) argv 0 (start_main e argv (init_errmark dr)) = (r, s')"
  shows "r \<in> Inr ` Some ` {..11} \<union> Inl ` ({Exit 0, Exit 2, Fault Null_stream} \<union>
      overruns (list_all ascii argv)) \<and> loop_end argv (r, s')"
proof -
  let ?s = "start_main e argv (init_errmark dr)"
  have s: "gopt ?s = init_getopt" "ready ?s" "getopt_wf argv (gopt ?s)"
    using assms(1)
    by (auto simp: ready_def getopt_wf_def start_main_def set_eprint_fh_def arg_at_def Let_def
        init_states init_getopt_def sname_def Suc_le_eq)
  have "args_left argv (gopt ?s) < enough_fuel argv"
    by (simp add: s(1) args_left_start)
  from option_loop_fuel [OF this, of 0] assms(2) have "r \<noteq> Inr None" by simp
  moreover have "j \<le> 11" if "r = Inr (Some j)" for j
    using option_loop_count [of "enough_fuel argv" argv 0 ?s j s'] assms(2) that by simp
  moreover have end_ok: "loop_end argv (r, s')"
    using option_loop_safe_from [OF s(2,3), of "enough_fuel argv" 0] assms(2) by simp
  ultimately show ?thesis
    by (cases r) (auto simp: loop_end_def safe_end_def image_Un split: option.splits)
qed

section \<open>Properties\<close>

text \<open>
  C22: the option loop is safe on every command line, whether its options are well formed or
  not: it returns, with at most eleven errors counted, or makes the process exit with 0 or 2,
  or, when an option follows one that turns on debugging, prints to the null debugging stream.
  It reads no null pointer (the value of an option, the argument it calls unknown, the marks),
  and a buffer is overrun only if an argument has a byte of 128 or more.
\<close>

theorem option_loop_safe:
  "fst (option_loop (enough_fuel argv) argv 0 (start_main e argv (init_errmark dr))) \<in>
    Inr ` Some ` {..11} \<union> Inl ` ({Exit 0, Exit 2, Fault Null_stream} \<union>
      (if list_all ascii argv then {} else {Fault Buffer_overflow}))"
proof (cases "argv = []")
  case True
  then show ?thesis by (simp add: option_loop_no_args)
next
  case False
  obtain r s' where "option_loop (enough_fuel argv) argv 0 (start_main e argv (init_errmark dr)) = (r, s')"
    by fastforce
  with option_loop_main [OF False this] show ?thesis by (simp add: overruns_def)
qed

end
