(* ===== verification/Main_Safe.thy ===== *)
theory Main_Safe
  imports Talk Options_Safe
begin

text \<open>
  How the program can end, whatever the command line, the kernel and the child: the
  predicate \<open>ends_in\<close> composes along the program from the tracer's operations to \<open>main\<close>.
\<close>

section \<open>The ends of a program\<close>

text \<open>
  There is a stream for errors and, if \<open>b\<close> says so, a path for \<open>execvp\<close>. Given these, \<open>m\<close> keeps
  them and ends the process only in ways of \<open>H\<close>.
\<close>

definition fit :: "bool \<Rightarrow> 'a world_scheme \<Rightarrow> bool" where
  "fit b s \<longleftrightarrow> errprint_fh s \<noteq> None \<and> (b \<longrightarrow> cmd_path (cmd s) \<noteq> None)"

definition ends_in :: "bool \<Rightarrow> halt set \<Rightarrow> ('a world_scheme, 'b) prog \<Rightarrow> bool" where
  "ends_in b H m \<longleftrightarrow> (\<forall>s. fit b s \<longrightarrow>
     fit b (snd (m s)) \<and> (\<forall>h. fst (m s) = Inl h \<longrightarrow> h \<in> H))"

definition orderly :: "halt set" where
  "orderly = insert Abort (range Exit)"

lemma orderly_ends [simp]: "Abort \<in> orderly" "Exit n \<in> orderly"
  by (simp_all add: orderly_def)

lemma ends_inD:
  "ends_in b H m \<Longrightarrow> fit b s \<Longrightarrow> m s = (r, s') \<Longrightarrow> fit b s' \<and> (\<forall>h. r = Inl h \<longrightarrow> h \<in> H)"
  unfolding ends_in_def by (metis fst_conv snd_conv)

lemma fit_same:
  "errprint_fh s' = errprint_fh s \<Longrightarrow> cmd_path (cmd s') = cmd_path (cmd s) \<Longrightarrow> fit b s' = fit b s"
  by (simp add: fit_def)

lemma ends_in_mono: "ends_in b H m \<Longrightarrow> H \<subseteq> K \<Longrightarrow> ends_in b K m"
  unfolding ends_in_def by blast

lemma ends_in_ret: "ends_in b H (ret a)"
  by (simp add: ends_in_def ret_run)

lemma ends_in_die: "h \<in> H \<Longrightarrow> ends_in b H (die h)"
  by (simp add: ends_in_def die_run)

lemma ends_in_withs: "(\<And>s. fit b s \<Longrightarrow> ends_in b H (f s)) \<Longrightarrow> ends_in b H (withs f)"
  by (simp add: ends_in_def withs_run)

lemma ends_in_upd:
  "(\<And>s. errprint_fh (f s) = errprint_fh s \<and> cmd_path (cmd (f s)) = cmd_path (cmd s)) \<Longrightarrow> ends_in b H (upd f)"
  by (simp add: ends_in_def upd_run fit_def)

lemma ends_in_bindp_of:
  assumes "ends_in b H m" "yields Q m" "\<And>a. Q a \<Longrightarrow> ends_in b H (k a)"
  shows "ends_in b H (bindp m k)"
  unfolding ends_in_def
proof (intro allI impI)
  fix s :: "'a world_scheme"
  assume s: "fit b s"
  obtain r t where m: "m s = (r, t)" by fastforce
  note one = ends_inD [OF assms(1) s m]
  show "fit b (snd (bindp m k s)) \<and> (\<forall>h. fst (bindp m k s) = Inl h \<longrightarrow> h \<in> H)"
  proof (cases r)
    case (Inl h)
    with one m show ?thesis by (simp add: bindp_run)
  next
    case (Inr a)
    with yieldsD [OF assms(2)] m have "ends_in b H (k a)" using assms(3) by simp
    with one m Inr show ?thesis by (simp add: bindp_run ends_in_def)
  qed
qed

lemma ends_in_bindp: "ends_in b H m \<Longrightarrow> (\<And>a. ends_in b H (k a)) \<Longrightarrow> ends_in b H (bindp m k)"
  by (rule ends_in_bindp_of [where Q = "\<lambda>_. True"]) (simp_all add: yields_def)

lemma ends_in_whenp: "ends_in b H m \<Longrightarrow> ends_in b H (whenp c m)"
  by (simp add: whenp_def ends_in_ret)

lemma ends_in_seqp: "list_all (ends_in b H) ms \<Longrightarrow> ends_in b H (seqp ms)"
  by (induction ms) (auto simp: ends_in_ret intro: ends_in_bindp)

lemmas ends_in_rules = ends_in_ret ends_in_bindp ends_in_whenp ends_in_seqp ends_in_withs ends_in_upd

section \<open>The tracer\<close>

lemma ends_in_fputs [simp]: "ends_in b H (fputs d (Some st))"
  by (simp add: fputs_Some ends_in_upd frame_simps)

lemma ends_in_fputs_err [simp]: "fit b s \<Longrightarrow> ends_in b H (fputs d (errprint_fh s))"
  by (auto simp: fit_def)

lemma ends_in_eprintf [simp]: "ends_in b H (eprintf d)"
  unfolding eprintf_def by (rule ends_in_withs) simp

lemma ends_in_exitp [simp]: "ends_in b orderly (exitp n)"
proof -
  have "fit b (fold fflush fs s) = fit b s" for fs and s :: "'a world_scheme"
    by (induction fs arbitrary: s) (simp_all add: fit_def frame_simps)
  then show ?thesis by (simp add: ends_in_def exitp_def flush_all_def)
qed

lemma ends_in_prints [simp]:
  "ends_in b H (trace_print d)" "ends_in b H (debug_print d)" "ends_in b H (fshow_errno (Some st) d err)"
  by (auto simp: trace_print_def debug_print_def fshow_errno_def Let_def
      intro!: ends_in_rules split: option.split)

lemma fit_marks [simp]:
  fixes s :: "'a world_scheme"
  shows "errprint_fh (mark_open s) = errprint_fh s" "errprint_fh (mark_close s) = errprint_fh s"
  "errprint_fh (before_write fd a n s) = errprint_fh s"
  "errprint_fh (after_write fd a n s) = errprint_fh s"
  "cmd (mark_open s) = cmd s" "cmd (mark_close s) = cmd s"
  "cmd (before_write fd a n s) = cmd s" "cmd (after_write fd a n s) = cmd s"
  by (simp_all add: mark_open_def mark_close_marks after_write_def before_write_def Let_def
      switch_from_fd_marks switch_to_fd_marks frame_simps)

lemma ends_in_close_marks [simp]: "ends_in b H close_marks"
  by (auto simp: close_marks_def intro!: ends_in_rules)

lemma ends_in_guard_ptrace [simp]: "ends_in b orderly (guard_ptrace r err)"
  by (auto simp: guard_ptrace_def frame_simps intro!: ends_in_rules ends_in_die)

text \<open>What \<open>malloc\<close> gives has the size asked for.\<close>

definition heap_ok :: "stop \<Rightarrow> bool" where
  "heap_ok e \<longleftrightarrow> (\<forall>n g. heap e n = Some g \<longrightarrow> length g = unat n)"

lemma ends_in_copy_stderr:
  assumes "heap_ok e"
  shows "ends_in b orderly (copy_stderr e a n cf :: ('a world_scheme, unit) prog)"
proof -
  have alloc: "ends_in b orderly (guard_malloc (heap e n) err n :: ('a world_scheme, string) prog)" for err
    by (auto simp: guard_malloc_def eexplain_err_def fexplain_err_def Let_def
        intro!: ends_in_rules split: option.split)
  have "yields (\<lambda>g. length g = unat n) (guard_malloc (heap e n) err n :: ('a world_scheme, string) prog)" for err
    using assms by (auto simp: guard_malloc_def heap_ok_def yields_def exitp_def ret_run bindp_run
        split: option.splits prod.splits sum.splits)
  moreover have "\<not> overrun (snd (pmem_copy g (mem_of e) a n))" if "length g = unat n" for g
  proof -
    obtain d ok where "fetch (mem_of e) a (unat n) = (d, ok)" by fastforce
    from pmem_copy_contents [OF this, of g] that show ?thesis by auto
  qed
  ultimately show ?thesis
    unfolding copy_stderr_def
    by (intro ends_in_bindp_of [where Q = "\<lambda>g. length g = unat n", OF alloc])
      (auto simp: Let_def frame_simps fwrite_def intro!: ends_in_rules)
qed

lemma ends_in_transfer: "heap_ok e \<Longrightarrow> ends_in b orderly (transfer e fd a n :: ('a world_scheme, unit) prog)"
proof -
  have "errprint_fh (snd (pmem_fwrite Stdout mem a n s)) = errprint_fh s \<and>
      cmd_path (cmd (snd (pmem_fwrite Stdout mem a n s))) = cmd_path (cmd s)"
    for mem and s :: "'a world_scheme"
  proof -
    have "cmd_path c = cmd_path (cmd_options c)" for c by (simp add: cmd_options_def)
    then show ?thesis
      using steady_fwrite [of s mem a n] unfolding steady_def by metis
  qed
  then show "heap_ok e \<Longrightarrow> ends_in b orderly (transfer e fd a n :: ('a world_scheme, unit) prog)"
    by (auto simp: transfer_def ends_in_copy_stderr intro!: ends_in_withs ends_in_upd split: option.split)
qed

lemma ends_in_handle_write:
  assumes "heap_ok e"
  shows "ends_in b orderly (handle_write e r l)"
proof -
  have "ends_in b orderly (write_entry e r l)" for l
    by (auto simp: write_entry_def Let_def frame_simps intro!: ends_in_rules ends_in_transfer [OF assms])
  moreover have "ends_in b orderly (write_exit e r l)" for l
    by (auto simp: write_exit_def Let_def intro!: ends_in_rules)
  ultimately show ?thesis
    unfolding handle_write_def by (auto intro!: ends_in_rules)
qed

text \<open>Registers can be read once a round has had them.\<close>

definition has_regs :: "locals \<Rightarrow> stop list \<Rightarrow> bool" where
  "has_regs l es \<longleftrightarrow> regs_var l \<noteq> None \<or> (case es of [] \<Rightarrow> True | e # es \<Rightarrow> \<not> isl (getregs e))"

lemma ends_in_iter:
  assumes "heap_ok e" "has_regs l (e # es)"
  shows "ends_in b orderly (ptrace_iter e l)"
proof -
  let ?l = "case getregs e of Inl err \<Rightarrow> l | Inr r \<Rightarrow> l\<lparr>regs_var := Some r\<rparr>"
  have "regs_var ?l \<noteq> None" using assms(2) by (auto simp: has_regs_def split: sum.splits)
  then obtain r where r: "regs_var ?l = Some r" by blast
  have rest: "ends_in b orderly (bindp (if orig_rax r = SYS_write then handle_write e r ?l else ret ?l)
      (\<lambda>l. bindp (guard_ptrace (PTRACE_SYSCALL 0) (syscall_err e)) (\<lambda>_. ret (Next l))))"
    by (auto intro!: ends_in_rules ends_in_handle_write [OF assms(1)])
  show ?thesis
    unfolding ptrace_iter_def Let_def r
    using rest by (auto intro!: ends_in_rules ends_in_handle_write [OF assms(1)])
qed

lemma ends_in_loop:
  "list_all heap_ok es \<Longrightarrow> has_regs l es \<Longrightarrow>
   ends_in b orderly (ptrace_loop es l :: ('a world_scheme, locals option) prog)"
proof (induction es arbitrary: l)
  case Nil
  then show ?case by (simp add: ends_in_ret)
next
  case (Cons e es)
  have iter: "ends_in b orderly (ptrace_iter e l)"
    using Cons.prems by (intro ends_in_iter) simp_all
  have regs: "yields (\<lambda>c. \<forall>l'. c = Next l' \<longrightarrow> regs_var l' \<noteq> None) (ptrace_iter e l)"
    unfolding yields_def by (metis iter_nextD next_round_def)
  show ?case
    unfolding ptrace_loop.simps
  proof (rule ends_in_bindp_of [OF iter regs])
    fix c :: "locals ctl"
    assume next_regs: "\<forall>l'. c = Next l' \<longrightarrow> regs_var l' \<noteq> None"
    show "ends_in b orderly ((case c of Break l \<Rightarrow> ret (Some l) | Next l \<Rightarrow> ptrace_loop es l)
        :: ('a world_scheme, locals option) prog)"
    proof (cases c)
      case (Break l')
      then show ?thesis by (simp add: ends_in_ret)
    next
      case (Next l')
      with next_regs have "has_regs l' es" by (simp add: has_regs_def)
      with Cons.prems(1) have "ends_in b orderly (ptrace_loop es l' :: ('a world_scheme, locals option) prog)"
        by (intro Cons.IH) simp_all
      with Next show ?thesis by simp
    qed
  qed
qed

text \<open>The answers of the kernel to a run.\<close>

fun answers_ok :: "forked \<Rightarrow> bool" where
  "answers_ok (In_child err exec) \<longleftrightarrow> True"
| "answers_ok (In_parent pid es) \<longleftrightarrow> list_all heap_ok es \<and> has_regs init_locals es"

lemma ends_in_fshow_wait_status: "ends_in b orderly (fshow_wait_status (Some st) nm status)"
proof -
  have "ends_in b orderly (lift_res (decode_signal_r lc n sig))" for lc n sig
    by (auto simp: ends_in_def lift_res_run decode_signal_r_def Let_def split: option.splits if_splits)
  then show ?thesis
    unfolding fshow_wait_status_def by (auto simp: Let_def intro!: ends_in_rules)
qed

text \<open>The ends of the forked process without a path.\<close>

fun no_path_ends :: "bool \<Rightarrow> forked \<Rightarrow> halt set" where
  "no_path_ends b (In_child err exec) = (if b then {} else {Fault Null_deref})"
| "no_path_ends b (In_parent pid es) = {}"

lemma ends_in_run_child: "ends_in b (orderly \<union> no_path_ends b (In_child err exec)) (run_child err exec)"
  (is "ends_in b ?H _")
proof -
  have "ends_in b ?H (guard_ptrace r err)" for r err
    by (rule ends_in_mono [OF ends_in_guard_ptrace]) simp
  moreover have "ends_in b ?H (execvp exec (cmd_path (cmd s)) a :: ('a world_scheme, (int \<times> int) option) prog)"
    if "fit b s" for a and s :: "'a world_scheme"
    using that by (auto simp: execvp_def fit_def intro!: ends_in_die ends_in_ret split: option.split)
  moreover have "ends_in b ?H (exitp n)" for n
    by (rule ends_in_mono [OF ends_in_exitp]) simp
  ultimately show ?thesis
    unfolding run_child_def
    by (auto simp: frame_simps simp del: no_path_ends.simps intro!: ends_in_rules split: option.split)
qed

lemma ends_in_run:
  assumes "answers_ok fk"
  shows "ends_in b (orderly \<union> no_path_ends b fk) (errmark_run_program fk)"
proof (cases fk)
  case (In_child err exec)
  then show ?thesis
    using ends_in_run_child
    by (auto simp: errmark_run_program_def frame_simps simp del: no_path_ends.simps intro!: ends_in_rules)
next
  case (In_parent pid es)
  with assms have "ends_in b orderly (ptrace_loop es init_locals)"
    by (simp add: ends_in_loop)
  then have "ends_in b orderly (ptrace_cmd es)"
    unfolding ptrace_cmd_def
    by (auto intro!: ends_in_rules ends_in_fshow_wait_status split: option.split)
  then show ?thesis
    by (auto simp: In_parent errmark_run_program_def run_parent_def frame_simps
        intro!: ends_in_rules split: option.split)
qed

section \<open>main\<close>

lemma ends_in_run_command:
  "answers_ok fk \<Longrightarrow> ends_in b (orderly \<union> no_path_ends b fk) (run_command fk)"
  unfolding run_command_def
  by (auto simp: frame_simps intro!: ends_in_rules ends_in_run ends_in_mono [OF ends_in_exitp]
      split: option.split)

lemma ends_in_open_copy: "ends_in b orderly (open_copy ok)"
proof -
  have "ends_in b orderly (try_fopen ok nm)" for nm
    by (auto simp: try_fopen_def fopen_w_def intro!: ends_in_rules)
  then show ?thesis
    unfolding open_copy_def by (auto simp: frame_simps intro!: ends_in_rules split: option.split)
qed

text \<open>Showing the arguments keeps the stream for errors, and overruns a buffer if they are not 7-bit.\<close>

lemma ends_in_fshow_str:
  "ascii d \<or> Fault Buffer_overflow \<in> H \<Longrightarrow> ends_in b H (fshow_str (Some st) d)"
proof (induction d)
  case Nil
  then show ?case by (simp add: ends_in_ret)
next
  case (Cons c d)
  have "ends_in b H (show_char_r 8 (schar c) :: ('a world_scheme, string) prog)"
    by (cases "(of_char c :: nat) < 128") (use Cons.prems in \<open>auto simp: ends_in_def\<close>)
  with Cons show ?case by (auto intro!: ends_in_rules)
qed

lemma ends_in_fshow_rows:
  "list_all ascii av \<or> Fault Buffer_overflow \<in> H \<Longrightarrow>
   ends_in b H (fshow_rows (Some st) w (length av) av i)"
proof (induction "length av - i" arbitrary: i)
  case 0
  then show ?case by (simp add: fshow_rows.simps [of _ _ _ _ i] ends_in_ret)
next
  case (Suc n)
  from Suc.hyps(2) have "n = length av - Suc i" by simp
  then have "ends_in b H (fshow_rows (Some st) w (length av) av (Suc i) :: ('a world_scheme, unit) prog)"
    using Suc.prems by (rule Suc.hyps(1))
  moreover have "ascii (av ! i) \<or> Fault Buffer_overflow \<in> H" "i < length av"
    using Suc.prems Suc.hyps(2) by (auto simp: list_all_length)
  ultimately show ?case
    by (auto simp: fshow_rows.simps [of _ _ _ _ i] simp del: seqp.simps
        intro!: ends_in_rules ends_in_fshow_str)
qed

lemma finish_main_ends:
  assumes "ready s" "optind (gopt s) \<le> length argv" "argv \<noteq> []" "length argv < 2 ^ 32"
    and "answers_ok (fork e)" "fst (finish_main e argv k s) = Inl h"
  shows "h \<in> orderly \<union> overruns (list_all ascii argv) \<union>
    no_path_ends (\<not> (k = 0 \<and> optind (gopt s) = length argv)) (fork e)"
proof (cases "k = 0")
  case False
  have "fst (finish_main e argv k s) = Inl (Exit 1)"
    using False assms(1) by (intro finish_main_errors) (simp_all add: ready_def)
  with assms(6) show ?thesis by auto
next
  case True
  let ?cl = "drop (optind (gopt s)) argv"
  let ?b = "optind (gopt s) \<noteq> length argv"
  let ?H = "orderly \<union> overruns (list_all ascii argv) \<union> no_path_ends ?b (fork e)"
  have asc: "list_all ascii ?cl \<or> Fault Buffer_overflow \<in> ?H" "length ?cl < 2 ^ 32"
    using assms(4) by (auto simp: list_all_iff overruns_def dest: in_set_dropD)
  have "ends_in ?b ?H (bindp (whenp v (fshow_str_array (Some Stderr) (length ?cl) ?cl))
      (\<lambda>_. seqp [open_copy (can_open e), run_command (fork e)]) :: ('a errmark_scheme, unit) prog)" for v
    unfolding fshow_array_rows [OF asc(2)]
    by (intro ends_in_bindp ends_in_whenp ends_in_seqp ends_in_fshow_rows asc(1))
      (auto intro: ends_in_mono [OF ends_in_open_copy] ends_in_mono [OF ends_in_run_command [OF assms(5)]])
  moreover have "fit ?b (commanded ?cl s)"
    using assms(1,2)
    by (auto simp: fit_def commanded_def set_verbose_def arg_at_def Let_def ready_def frame_simps)
  ultimately show ?thesis
    using assms(6) finish_main_commanded [OF refl assms(2,3), of e]
    unfolding ends_in_def True by (metis (no_types, lifting))
qed

section \<open>The program ends\<close>

text \<open>Programs that do not come back, whatever is done before them.\<close>

definition leaves :: "('s, unit) prog \<Rightarrow> bool" where
  "leaves m \<longleftrightarrow> (\<forall>s. fst (m s) \<noteq> Inr ())"

lemma leaves_bindp: "(\<And>a. leaves (k a)) \<Longrightarrow> leaves (bindp m k)"
  by (simp add: leaves_def bindp_run split: prod.split sum.split)

lemma leaves_seqp: "ms \<noteq> [] \<Longrightarrow> leaves (last ms) \<Longrightarrow> leaves (seqp ms)"
proof (induction ms)
  case (Cons m ms)
  show ?case
  proof (cases "ms = []")
    case True
    with Cons.prems show ?thesis by (simp add: leaves_def bindp_run ret_run split: prod.split sum.split)
  next
    case False
    with Cons show ?thesis by (simp add: leaves_bindp)
  qed
qed simp

text \<open>A child that is seen to end, or, in the child itself, an \<open>execvp\<close> that returns or faults.\<close>

fun child_ends :: "forked \<Rightarrow> bool" where
  "child_ends (In_child err exec) \<longleftrightarrow> (\<forall>path args. exec path args \<noteq> None)"
| "child_ends (In_parent pid es) \<longleftrightarrow> list_ex (\<lambda>e. child_ended (wait_status e)) es"

lemma run_never_waits: "child_ends fk \<Longrightarrow> fst (errmark_run_program fk s) \<noteq> Inr None"
proof (cases fk)
  case (In_child err exec)
  assume "child_ends fk"
  then have returns: "exec path args \<noteq> None" for path args by (simp add: In_child)
  have "fst (execvp exec path args t) \<noteq> Inr None" for path args and t :: "'a world_scheme"
    using returns by (simp add: execvp_def die_run ret_run split: option.split)
  then show ?thesis
    by (auto simp: In_child errmark_run_program_def run_child_def bindp_run upd_run exitp_def withs_run
        split: prod.split sum.split option.split) (metis fst_conv)+
next
  case (In_parent pid es)
  assume "child_ends fk"
  then show ?thesis using run_ends [of es pid s] by (simp add: In_parent)
qed

lemma leaves_run_command: "child_ends fk \<Longrightarrow> leaves (run_command fk)"
proof -
  assume "child_ends fk"
  then have "fst (errmark_run_program fk s) \<noteq> Inr None" for s :: "'a world_scheme"
    by (rule run_never_waits)
  then show "leaves (run_command fk :: ('a world_scheme, unit) prog)"
    unfolding leaves_def run_command_def bindp_run
    by (auto simp: upd_run exitp_def split: prod.split sum.split option.split) (metis fst_conv)
qed

section \<open>Properties\<close>

text \<open>
  The options are well formed up to the end of the command line: no command is left. The
  option loop is run to see it.
\<close>

definition command_missing :: "env \<Rightarrow> (stream \<Rightarrow> string \<Rightarrow> nat) \<Rightarrow> string list \<Rightarrow> bool" where
  "command_missing e dr argv \<longleftrightarrow>
     (case option_loop (enough_fuel argv) argv 0 (start_main e argv (init_errmark dr)) of
        (Inr (Some n), s) \<Rightarrow> n = 0 \<and> optind (gopt s) = length argv
      | _ \<Rightarrow> False)"

text \<open>
  C6: the whole program is safe on every command line and whatever the kernel and the child
  do, provided that \<open>malloc\<close> gives blocks of the size asked for and that the first request
  for the registers succeeds: it returns (the child is still running, or the command has
  replaced the forked process), exits, aborts, or prints to the null debugging stream; with
  bytes of 128 or more in an argument it may also overrun a buffer, and without a command
  the forked process may also read the null path. No other buffer is overrun, no other null
  pointer used, and no variable read that was not set.
\<close>

theorem main_safe:
  assumes "length argv < 2 ^ 32" "answers_ok (fork e)"
  shows "fst (main_prog e argv (init_errmark dr)) \<in>
    {Inr (), Inl Abort, Inl (Fault Null_stream)} \<union> Inl ` range Exit \<union>
    (if list_all ascii argv then {} else {Inl (Fault Buffer_overflow)}) \<union>
    (case fork e of
       In_child err exec \<Rightarrow> if command_missing e dr argv then {Inl (Fault Null_deref)} else {}
     | In_parent pid es \<Rightarrow> {})"
proof (cases "argv = []")
  case True
  then show ?thesis by (simp add: main_no_args)
next
  case False
  obtain r s where loop: "option_loop (enough_fuel argv) argv 0 (start_main e argv (init_errmark dr)) = (r, s)"
    by fastforce
  note r = option_loop_main [OF False loop]
  show ?thesis
  proof (cases "\<exists>k. r = Inr (Some k)")
    case True
    then obtain k where k: "r = Inr (Some k)" by blast
    then have "ready s" "optind (gopt s) \<le> length argv" using r by (simp_all add: loop_end_def)
    from finish_main_ends [OF this False assms] have
      "fst (finish_main e argv k s) = Inl h \<Longrightarrow> h \<in> orderly \<union> overruns (list_all ascii argv) \<union>
        no_path_ends (\<not> command_missing e dr argv) (fork e)" for h
      by (simp add: command_missing_def loop k)
    moreover have "main_prog e argv (init_errmark dr) = finish_main e argv k s"
      by (simp add: main_prog_def bindp_run upd_run loop k)
    ultimately show ?thesis
      by (cases "fst (finish_main e argv k s)"; cases "fork e")
        (auto simp: orderly_def overruns_def split: if_splits)
  next
    case False
    with r obtain h where "r = Inl h" "h \<in> {Exit 0, Exit 2, Fault Null_stream} \<union> overruns (list_all ascii argv)"
      by auto
    then show ?thesis
      by (auto simp: main_prog_def bindp_run upd_run loop overruns_def split: if_splits)
  qed
qed

theorem main_safe_witness:
  "fst (main_prog \<lparr>stat1 = None, stat2 = None, can_open = (\<lambda>_. True),
       fork = In_parent 7 (concat (map rounds demo_run) @ [demo_exit])\<rparr>
     [''errmark'', ''--mark=2'', ''-q'', ''--'', ''ls''] (init_errmark usual_drain)) \<in>
   {Inr (), Inl Abort, Inl (Fault Null_stream)} \<union> Inl ` range Exit"
  using main_safe [of "[''errmark'', ''--mark=2'', ''-q'', ''--'', ''ls'']" "\<lparr>stat1 = None, stat2 = None,
      can_open = (\<lambda>_. True), fork = In_parent 7 (concat (map rounds demo_run) @ [demo_exit])\<rparr>"]
  by (simp add: demo_run_def demo_exit_def round_def heap_ok_def has_regs_def)

text \<open>
  C7: the whole program ends (exits, aborts or faults) on every command line, well-formed or
  not, once the child is seen to end: neither the reading of the options nor the loop of the
  tracer goes on for ever.
\<close>

theorem main_ends:
  assumes "child_ends (fork e)"
  shows "fst (main_prog e argv (init_errmark dr)) \<noteq> Inr ()"
proof -
  let ?s = "start_main e argv (init_errmark dr)"
  have "args_left argv (gopt ?s) < enough_fuel argv"
    by (simp add: start_main_gopt args_left_start)
  then have "fst (option_loop (enough_fuel argv) argv 0 ?s) \<noteq> Inr None"
    by (rule option_loop_fuel)
  moreover have "leaves (finish_main e argv k :: (errmark, unit) prog)" for k
    unfolding finish_main_def
    by (rule leaves_seqp) (simp_all add: leaves_run_command assms)
  ultimately show ?thesis
    by (auto simp: main_prog_def bindp_run upd_run leaves_def split: prod.split sum.split option.split)
qed

theorem main_ends_witness:
  "fst (main_prog \<lparr>stat1 = None, stat2 = None, can_open = (\<lambda>_. True), fork = In_parent 7 [demo_exit]\<rparr>
     [''errmark'', ''-z'', ''--mark'', ''ls''] (init_errmark usual_drain)) \<noteq> Inr ()"
  by (rule main_ends) (use demo_ok(4) in simp)

end
