(* ===== verification/Aborted.thy ===== *)
theory Aborted
  imports Messages Whole_Program
begin

text \<open>
  Runs that are cut off: after any number of system calls of the child a request to
  \<open>ptrace\<close> is refused, for another reason than that the child is gone. What has been shown by
  then, and what is lost, since \<open>abort\<close> does not flush the streams.
\<close>

section \<open>A request that is refused\<close>

definition refused :: "int \<Rightarrow> stop \<Rightarrow> bool" where
  "refused err e \<longleftrightarrow> \<not> child_ended (wait_status e) \<and> getregs e = Inl err \<and> err \<noteq> 0 \<and> err \<noteq> ESRCH"

definition ptrace_error :: "libc \<Rightarrow> int \<Rightarrow> string" where
  "ptrace_error lc err =
     ''ptrace() failed - '' @ fmt_d err @ ''='' @ decode_esym_r 12 err @ ''='' @ strerror lc err @ ''.'' @ nl"

lemma guard_ptrace_refused:
  assumes "trace_fbt (cmd s) = None" "err \<noteq> 0" "err \<noteq> ESRCH"
  shows "guard_ptrace r err s =
    (Inl Abort, fput Stderr (ptrace_error (clib s) err) (close_step (asked r s)))"
  using assms
  by (simp add: guard_ptrace_def trace_print_def fshow_errno_def ptrace_error_def Let_def prog_simps
      close_marks_step asked_def frame_simps)

lemma run_refused:
  assumes "plain s" "\<not> cverbose (cmd s)" "list_all proper as" "refused err e"
  shows "\<exists>s1. produced (concat (map writes_of as)) (concat (map requests_of as)) (begin_run pid s) s1 \<and>
    errmark_run_program (In_parent pid (concat (map rounds as) @ [e])) s =
      (Inl Abort, fput Stderr (ptrace_error (clib s) err) (close_step (asked PTRACE_GETREGS s1)))"
proof -
  have "plain (begin_run pid s)" using assms(1) by (simp add: frame_simps)
  from loop_activities [OF this assms(3), of init_locals "[e]"] obtain l s1 where
    loop: "ptrace_loop (concat (map rounds as) @ [e]) init_locals (begin_run pid s) = ptrace_loop [e] l s1"
    and p: "produced (concat (map writes_of as)) (concat (map requests_of as)) (begin_run pid s) s1"
    by (auto simp: init_locals_def)
  have "clib s1 = clib s" using p by (simp add: produced_def settings_def begin_run_def frame_simps)
  moreover have "trace_fbt (cmd s1) = None" using produced_plain [OF p] by (simp add: plain_def)
  ultimately have "ptrace_loop [e] l s1 =
      (Inl Abort, fput Stderr (ptrace_error (clib s) err) (close_step (asked PTRACE_GETREGS s1)))"
    using assms(4) guard_ptrace_refused [of s1 err PTRACE_GETREGS]
    by (simp add: refused_def ptrace_iter_def Let_def bindp_run)
  with loop p show ?thesis
    using assms(2)
    by (auto simp: errmark_run_program_def run_parent_def ptrace_cmd_def begin_run_def [symmetric]
        bindp_run upd_run withs_run whenp_run frame_simps)
qed

section \<open>What is shown and what is lost\<close>

text \<open>A direct write leaves no output behind in the buffers of the two descriptors.\<close>

lemma write_marks_synced:
  "ms \<noteq> [] \<Longrightarrow> st \<in> {Stdout, Stderr} \<Longrightarrow> pending (write_marks ms s) st = []"
proof (induction ms arbitrary: s)
  case (Cons m ms)
  obtain t d where m: "m = (t, d)" by fastforce
  show ?case
  proof (cases "ms = []")
    case True
    with Cons.prems(2) show ?thesis by (auto simp: write_marks_def m frame_simps)
  next
    case False
    with Cons show ?thesis by (simp add: write_marks_def m)
  qed
qed simp

text \<open>After the last end mark, a message to stderr is shown at once and after all the rest.\<close>

lemma close_step_synced: "end_text s (open_fd s) \<noteq> [] \<Longrightarrow> pending (close_step s) Stdout = []"
proof -
  assume en: "end_text s (open_fd s) \<noteq> []"
  then have "mark_state (cmd s) \<noteq> 0" using end_text_none by (metis open_fd_def)
  moreover from this en have "end_mark s (cur_fd s) \<noteq> []" by (auto simp: open_fd_def)
  ultimately show ?thesis by (simp add: close_step_def mark_close_marks write_marks_synced)
qed

lemma tty_message:
  assumes "pending s Stdout = []" "quiet s" "unbuffered s"
  shows "tty (fput Stderr msg s) = tty_flow s @ msg"
proof -
  have "tty (fput Stderr msg s) = tty_flow (fput Stderr msg s)"
    using assms quiet_message [of s msg] by (simp add: tty_flow_def quiet_def pending_fput_other)
  also have "\<dots> = tty_flow s @ msg"
    using assms by (simp add: tty_flow_def tty_def quiet_def io_defs cut_pieces)
  finally show ?thesis .
qed

text \<open>
  From \<open>s\<close> to the end \<open>t\<close> of a run cut off: the terminal's output is complete if the last end
  mark was written; stdout and the files have been handed all they should get, but nothing has
  left a file's buffer that has room for it.
\<close>

definition cut_off :: "(int \<times> string) list \<Rightarrow> string \<Rightarrow> 'a world_scheme \<Rightarrow> 'a world_scheme \<Rightarrow> bool" where
  "cut_off ws msg s t \<longleftrightarrow>
     (end_text s (last_fd (-1) ws) \<noteq> [] \<longrightarrow>
        tty t = tty_flow s @ bracketed (start_text s) (end_text s) (runs ws) @ msg) \<and>
     flow Stdout t = flow Stdout s @
       bracketed (own Stdout (start_text s)) (own Stdout (end_text s)) (runs ws) \<and>
     (\<forall>p. flow (Opened p) t = flow (Opened p) s @
       (if copy_fh (cmd s) = Some (Opened p) then stderr_data ws else [])) \<and>
     (\<forall>p. held_back (Opened p) s t)"

lemma produced_cut_off:
  assumes p: "produced ws rs (begin_run pid s) s1" and ws: "-1 \<notin> set (map fst ws)"
    and s: "unbuffered s"
  shows "cut_off ws msg s (fput Stderr msg (close_step (asked r s1)))"
proof -
  let ?c = "close_step (asked r s1)"
  let ?en = "end_text s (last_fd (-1) ws)"
  have set: "settings s1 = settings (begin_run pid s)" using p by (simp add: produced_def)
  have m: "end_mark s1 = end_mark s"
    using set settings_marks [of s1 "begin_run pid s"] by (simp add: fun_eq_iff frame_simps)
  have mr: "end_mark (asked r s1) fd = end_mark s fd" for fd
    by (simp add: m [symmetric] asked_def end_mark_def frame_simps)
  have last: "open_fd s1 = last_fd (-1) ws" using p by (simp add: produced_def frame_simps)
  have drain: "drain ?c = drain s"
    using set by (simp add: close_step_def mark_close_marks asked_def settings_def begin_run_def frame_simps)
  have quiet: "quiet ?c"
    using produced_plain [OF p] by (simp add: close_step_quiet plain_def asked_def)
  have unb: "unbuffered ?c" using s drain by (simp add: unbuffered_def)
  have "tty_flow ?c = tty_flow s @ bracketed (start_text s) (end_text s) (runs ws)"
    using p marked_bracketed [of "end_text s", OF end_text_none ws, of "start_text s"]
    by (simp add: produced_def last mr frame_simps)
  moreover have "tty (fput Stderr msg ?c) = tty_flow ?c @ msg" if "?en \<noteq> []"
    using that last by (intro tty_message close_step_synced quiet unb) (simp add: mr frame_simps)
  moreover have "flow Stdout (fput Stderr msg ?c) = flow Stdout s @
      bracketed (own Stdout (start_text s)) (own Stdout (end_text s)) (runs ws)"
    using p marked_bracketed [of "own Stdout (end_text s)", OF own_none ws, of "own Stdout (start_text s)"]
    by (simp add: produced_def shown_on_def carried_def flow_fput last mr frame_simps)
  moreover have "flow (Opened q) (fput Stderr msg ?c) = flow (Opened q) s @
      (if copy_fh (cmd s) = Some (Opened q) then stderr_data ws else [])" for q
    using p by (simp add: produced_def flow_fput frame_simps)
  moreover have "held_back (Opened q) s (fput Stderr msg ?c)" for q
  proof (rule held_back_trans [of _ s s1])
    have "held_back (Opened q) (begin_run pid s) s1" using p by (simp add: produced_def)
    moreover have "content (Opened q) (begin_run pid s) = content (Opened q) s"
      by (simp add: begin_run_def frame_simps)
    ultimately show "held_back (Opened q) s s1" by (simp add: held_back_def frame_simps)
    have "on_terminal (end_mark (asked r s1) (cur_fd (asked r s1)))" by simp
    then show "held_back (Opened q) s1 (fput Stderr msg ?c)"
      by (intro held_back_same)
        (simp add: content_fput_other close_step_def mark_close_marks content_write_marks frame_simps)
    show "drain s1 = drain s" using set by (simp add: settings_def begin_run_def frame_simps)
    show "length (flow (Opened q) s1) \<le> length (flow (Opened q) (fput Stderr msg ?c))"
      by (simp add: flow_fput frame_simps)
  qed
  ultimately show ?thesis by (simp add: cut_off_def)
qed

section \<open>Properties\<close>

text \<open>
  C8: a request refused by \<open>ptrace\<close> in the middle of a run of the whole program, with stderr
  unbuffered. The program aborts. If the last end mark is not empty, the terminal has shown the
  output of the child up to there, bracketed, and then the error; if it is, data copied since
  the last flush of stdout may be missing. The file to copy to has been given a part of what
  should be there, and the rest is in the buffer of its stream, and lost; nothing at all has
  been given to it if the buffer has room for what the child wrote to descriptor 2.
\<close>

theorem main_aborted:
  assumes "list_all (item_ok (can_open e)) its" "command_line cl"
    and "fork e = In_parent pid (concat (map rounds as) @ [ev])"
    and "list_all proper as" "refused err ev" "ws = concat (map writes_of as)"
    and "\<forall>b. length b \<le> dr Stderr b"
  shows "\<exists>t. main_prog e (p # concat (map render its) @ cl) (init_errmark dr) = (Inl Abort, t) \<and>
    (snd (marks_of its (last_fd (-1) ws)) \<noteq> [] \<longrightarrow>
      tty t = bracketed (\<lambda>fd. fst (marks_of its fd)) (\<lambda>fd. snd (marks_of its fd)) (runs ws) @
        ptrace_error plain_libc err) \<and>
    (\<forall>f. content (Opened f) t @ pending t (Opened f) =
      (if copy_of its = Some f then stderr_data ws else [])) \<and>
    (\<forall>f k. buffers dr (Opened f) k \<and> length (stderr_data ws) \<le> k \<longrightarrow> content (Opened f) t = [])"
proof -
  from main_ready [OF assms(1,2), of p dr] obtain s where
    run: "main_prog e (p # concat (map render its) @ cl) (init_errmark dr) = run_command (fork e) s" and
    s: "plain s" "\<not> cverbose (cmd s)" "tty_flow s = []" "\<forall>st. flow st s = []"
      "\<forall>fd. start_text s fd = fst (marks_of its fd)" "\<forall>fd. end_text s fd = snd (marks_of its fd)"
      "copy_fh (cmd s) = map_option Opened (copy_of its)" "drain s = dr" "clib s = plain_libc"
    by blast
  have unb: "unbuffered s" using s(8) assms(7) by (simp add: unbuffered_def)
  from run_refused [OF s(1,2) assms(4,5), of pid] produced_cut_off [OF _ writes_of_fds unb]
  obtain t where "errmark_run_program (fork e) s = (Inl Abort, t)" and
    cut: "cut_off ws (ptrace_error plain_libc err) s t"
    by (auto simp: assms(3,6) s(9))
  then have aborts: "run_command (fork e) s = (Inl Abort, t)" by (simp add: run_command_def bindp_run)
  have empty: "content (Opened f) s = []" for f
    using s(4) by (simp add: flow_def)
  have copied: "flow (Opened f) t = (if copy_of its = Some f then stderr_data ws else [])" for f
    using cut s(4,7) by (auto simp: cut_off_def)
  then have "content (Opened f) t = []"
    if "buffers dr (Opened f) k" "length (stderr_data ws) \<le> k" for f k
    using cut that empty [of f] by (auto simp: cut_off_def held_back_def s(8) split: if_splits)
  moreover have "content (Opened f) t @ pending t (Opened f) =
      (if copy_of its = Some f then stderr_data ws else [])" for f
    using copied [of f] by (simp add: flow_def)
  moreover have "snd (marks_of its (last_fd (-1) ws)) \<noteq> [] \<Longrightarrow>
      tty t = bracketed (\<lambda>fd. fst (marks_of its fd)) (\<lambda>fd. snd (marks_of its fd)) (runs ws) @
        ptrace_error plain_libc err"
    using cut s(3,5,6) by (simp add: cut_off_def)
  ultimately show ?thesis
    unfolding run aborts by (intro exI [of _ t]) blast
qed

theorem main_aborted_witness:
  "\<exists>t. main_prog \<lparr>stat1 = None, stat2 = None, can_open = (\<lambda>_. True), fork = In_parent 7
       (concat (map rounds demo_run) @ [demo_exit\<lparr>wait_status := 0x57f, getregs := Inl 1\<rparr>])\<rparr>
     (''errmark'' # concat (map render [Mark_item CHR ''2'' CHR ''/'' ''<b>'' ''</b>'', Copy_item ''errs'']) @ [''ls''])
     (init_errmark usual_drain) = (Inl Abort, t) \<and> tty t = ''<b>ABC</b>ptrace() failed - 1=EPERM=error.'' @ nl \<and>
    content (Opened ''errs'') t = [] \<and> pending t (Opened ''errs'') = ''ABC''"
proof -
  have "refused 1 (demo_exit\<lparr>wait_status := 0x57f, getregs := Inl 1\<rparr>)"
    using trap_status by (simp add: refused_def ESRCH_def)
  moreover have "ptrace_error plain_libc 1 = ''ptrace() failed - 1=EPERM=error.'' @ nl"
    by (simp add: ptrace_error_def plain_libc_def decode_esym_r_def errno_table_size_eq fmt_d_def
        num.simps digit_chars) (simp add: errno_table_def)
  moreover have "\<forall>b. length b \<le> usual_drain Stderr b" "buffers usual_drain (Opened ''errs'') 4095"
    by (simp_all add: usual_drain_def buffers_def)
  moreover have "length (stderr_data [(2, ''ABC'')]) \<le> 4095" by (simp add: stderr_data_def)
  ultimately obtain t where t: "main_prog \<lparr>stat1 = None, stat2 = None, can_open = (\<lambda>_. True), fork = In_parent 7
       (concat (map rounds demo_run) @ [demo_exit\<lparr>wait_status := 0x57f, getregs := Inl 1\<rparr>])\<rparr>
     (''errmark'' # concat (map render [Mark_item CHR ''2'' CHR ''/'' ''<b>'' ''</b>'', Copy_item ''errs'']) @ [''ls''])
     (init_errmark usual_drain) = (Inl Abort, t)" "tty t = ''<b>ABC</b>ptrace() failed - 1=EPERM=error.'' @ nl"
     "content (Opened ''errs'') t @ pending t (Opened ''errs'') = ''ABC''" "content (Opened ''errs'') t = []"
    using main_aborted [where e = "\<lparr>stat1 = None, stat2 = None, can_open = (\<lambda>_. True), fork = In_parent 7
         (concat (map rounds demo_run) @ [demo_exit\<lparr>wait_status := 0x57f, getregs := Inl 1\<rparr>])\<rparr>"
       and its = "[Mark_item CHR ''2'' CHR ''/'' ''<b>'' ''</b>'', Copy_item ''errs'']" and cl = "[''ls'']"
       and p = "''errmark''" and pid = 7 and err = 1 and dr = usual_drain, OF _ _ _ demo_ok(3) _ demo_writes [symmetric]]
    by (fastforce simp: command_line_def marks_of_def bracketed_def copy_of_def stderr_data_def)
  then show ?thesis by auto
qed

end
